(* ===== verification/Prelude.thy ===== *)
theory Prelude
  imports Main "HOL-Library.Word"
begin

text \<open>
  Names and generic facts that every component shares: the machine integer widths of the
  Rust code, the error type of the SDK's \<open>Result\<close>, the \<open>?\<close> operator, and a few list lemmas.

  \<^item> \<open>u8\<close> \<dots> \<open>u128\<close> and \<open>i64\<close> are words of their width; a signed type is read with \<open>sint\<close>.
  \<^item> \<open>rpc_error\<close> is \<open>vgi_rpc::RpcError\<close>, of which the code uses the two constructors
    \<open>value_error\<close> and \<open>runtime_error\<close>. A \<open>Result<T>\<close> is \<open>rpc_error + 'a\<close>.
  \<^item> An \<open>outcome\<close> is what a call that may panic comes to: \<open>Inl\<close> the message of the panic or \<open>Inr\<close> its value.
  \<^item> \<open>try_then\<close> is Rust's \<open>?\<close>: the error leaves, a value goes on.
\<close>

unbundle bit_operations_syntax

type_synonym u8 = "8 word"
type_synonym u16 = "16 word"
type_synonym u32 = "32 word"
type_synonym u64 = "64 word"
type_synonym u128 = "128 word"
type_synonym i64 = "64 word"

datatype rpc_error = ValueError string | RuntimeError string

type_synonym 'a rpc_result = "rpc_error + 'a"
type_synonym 'a outcome = "string + 'a"

named_theorems bytes_simps \<open>rewriting byte encodings of words\<close>
named_theorems str_simps \<open>evaluating the string operations of the standard library\<close>

subsection \<open>Words\<close>

lemma sint_of_nat_small: "n < 2 ^ 63 \<Longrightarrow> sint (of_nat n :: i64) = int n"
  by (simp add: signed_of_nat signed_take_bit_int_eq_self)

subsection \<open>Results\<close>

fun try_then :: "'e + 'a \<Rightarrow> ('a \<Rightarrow> 'e + 'b) \<Rightarrow> 'e + 'b" where
  "try_then (Inl e) f = Inl e"
| "try_then (Inr a) f = f a"

fun map_err :: "('e \<Rightarrow> 'f) \<Rightarrow> 'e + 'a \<Rightarrow> 'f + 'a" where
  "map_err g (Inl e) = Inl (g e)"
| "map_err g (Inr a) = Inr a"

fun ok_of :: "'e + 'a \<Rightarrow> 'a option" where
  "ok_of (Inl e) = None"
| "ok_of (Inr a) = Some a"

text \<open>\<open>for x in xs { out.extend(f(x)?) }\<close>: the first error stops the loop.\<close>

fun try_concat :: "('a \<Rightarrow> 'e + 'b list) \<Rightarrow> 'a list \<Rightarrow> 'e + 'b list" where
  "try_concat f [] = Inr []"
| "try_concat f (x # xs) = try_then (f x) (\<lambda>ys. try_then (try_concat f xs) (\<lambda>zs. Inr (ys @ zs)))"

lemma try_then_Inr_iff: "try_then r f = Inr b \<longleftrightarrow> (\<exists>a. r = Inr a \<and> f a = Inr b)"
  by (cases r) auto

lemma try_then_Inl_iff:
  "try_then r f = Inl e \<longleftrightarrow> r = Inl e \<or> (\<exists>a. r = Inr a \<and> f a = Inl e)"
  by (cases r) auto

lemma map_err_Inr_iff [simp]: "map_err g r = Inr a \<longleftrightarrow> r = Inr a"
  by (cases r) auto

lemma map_err_Inl_iff: "map_err g r = Inl e \<longleftrightarrow> (\<exists>e'. r = Inl e' \<and> e = g e')"
  by (cases r) auto

lemma try_concat_Inr:
  "try_concat f xs = Inr ys \<Longrightarrow> (\<forall>x \<in> set xs. \<exists>zs. f x = Inr zs \<and> set zs \<subseteq> set ys)"
  by (induction xs arbitrary: ys) (fastforce simp: try_then_Inr_iff)+

lemma try_concat_singletons:
  "(\<And>x. x \<in> set xs \<Longrightarrow> f x = Inr [g x]) \<Longrightarrow> try_concat f xs = Inr (map g xs)"
  by (induction xs) auto

subsection \<open>Lists\<close>

lemma find_Some_in: "find P xs = Some x \<Longrightarrow> x \<in> set xs \<and> P x"
  by (auto simp: find_Some_iff)

lemma in_map_filter: "y \<in> set (List.map_filter f xs) \<Longrightarrow> \<exists>x \<in> set xs. f x = Some y"
  by (auto simp: List.map_filter_def)

lemma length_concat_replicate: "length (concat (map (\<lambda>x. [f x]) xs)) = length xs"
  by (induction xs) auto

lemma take_eq_prefix_iff: "take (length w) s = w \<longleftrightarrow> (\<exists>t. s = w @ t)"
  by (metis append_eq_conv_conj append_take_drop_id)

lemma list_all_map_Some: "map f xs = map g xs \<longleftrightarrow> (\<forall>x \<in> set xs. f x = g x)"
  by simp

end
