(* ===== verification/Aspath.thy ===== *)
theory Aspath
  imports Prelude
begin

text \<open>
  \<open>bgp-core/src/aspath.rs\<close>: the AS-path helpers behind four of the SQL scalars, on a path as a
  list of \<open>u32\<close> in path order (the origin AS is last). Counts are \<open>i64\<close>, kept as 64-bit words
  and read with \<open>sint\<close>; a Rust slice has at most \<open>2 ^ 63 - 1\<close> bytes, hence fewer than
  \<open>2 ^ 61\<close> elements of 4 bytes, which is the length hypothesis of the exactness lemmas.
\<close>

definition path_length :: "u32 list \<Rightarrow> i64" where
  "path_length path = of_nat (length path)"

definition origin_asn :: "u32 list \<Rightarrow> u32 option" where
  "origin_asn path = (if path = [] then None else Some (last path))"

text \<open>\<open>path.windows(2)\<close>: the overlapping pairs, in order.\<close>

fun windows2 :: "'a list \<Rightarrow> ('a \<times> 'a) list" where
  "windows2 (x # y # zs) = (x, y) # windows2 (y # zs)"
| "windows2 _ = []"

definition as_path_prepends :: "u32 list \<Rightarrow> i64" where
  "as_path_prepends path =
     foldl (\<lambda>prepends w. if fst w = snd w then prepends + 1 else prepends) 0 (windows2 path)"

definition path_contains :: "u32 list \<Rightarrow> u32 \<Rightarrow> bool" where
  "path_contains path asn \<longleftrightarrow> asn \<in> set path"

text \<open>The number of runs of equal neighbours: what the documentation subtracts.\<close>

definition runs :: "'a list \<Rightarrow> nat" where
  "runs path = length (remdups_adj path)"

definition slice_len :: "'a list \<Rightarrow> bool" where
  "slice_len path \<longleftrightarrow> length path < 2 ^ 61"

lemma prepends_foldl:
  "foldl (\<lambda>prepends w. if fst w = snd w then prepends + 1 else prepends) (n :: i64) ws
     = n + of_nat (length (filter (\<lambda>w. fst w = snd w) ws))"
  by (induction ws arbitrary: n) auto

lemma equal_neighbours_runs:
  "length (filter (\<lambda>w. fst w = snd w) (windows2 path)) + runs path = length path"
  by (induction path rule: windows2.induct) (auto simp: runs_def)

lemma as_path_prepends_eq:
  "as_path_prepends path = of_nat (length path - runs path)"
proof -
  have "length path - runs path = length (filter (\<lambda>w. fst w = snd w) (windows2 path))"
    using equal_neighbours_runs [of path] by simp
  then show ?thesis by (simp add: as_path_prepends_def prepends_foldl)
qed

lemma runs_le: "runs path \<le> length path"
  using equal_neighbours_runs [of path] by linarith

lemma runs_pos: "path \<noteq> [] \<Longrightarrow> 0 < runs path"
  by (simp add: runs_def)

subsection \<open>Properties\<close>

text \<open>
  C26: the prepend counter is exactly what its documentation says it equals: the path length less
  the number of runs of equal neighbouring ASNs, as a signed 64-bit number, with no wrap-around
  for any slice that fits in memory; so it is never negative and is less than the hop count of a
  non-empty path.
\<close>

theorem prepends_length_minus_runs:
  assumes "slice_len path"
  shows "sint (as_path_prepends path) = sint (path_length path) - int (runs path)
    \<and> 0 \<le> sint (as_path_prepends path)
    \<and> (path \<noteq> [] \<longrightarrow> sint (as_path_prepends path) < sint (path_length path))"
proof -
  have small: "length path < 2 ^ 63" "length path - runs path < 2 ^ 63"
    using assms by (auto simp: slice_len_def)
  then have "sint (as_path_prepends path) = int (length path - runs path)"
    "sint (path_length path) = int (length path)"
    by (simp_all only: as_path_prepends_eq path_length_def sint_of_nat_small)
  then show ?thesis
    using runs_le [of path] runs_pos [of path] by (auto simp: of_nat_diff)
qed

theorem prepends_length_minus_runs_witness:
  "sint (as_path_prepends [7018, 174, 174, 13335])
     = sint (path_length [7018, 174, 174, 13335]) - 3"
proof -
  have "slice_len [7018, 174, 174, 13335 :: u32]" by (simp add: slice_len_def)
  then have "sint (as_path_prepends [7018, 174, 174, 13335])
      = sint (path_length [7018, 174, 174, 13335]) - int (runs [7018, 174, 174, 13335 :: u32])"
    using prepends_length_minus_runs by blast
  then show ?thesis by (simp add: runs_def)
qed

text \<open>
  Padding is invisible to the other helpers and costs exactly its length: prepending the
  neighbour AS \<open>k\<close> more times to a non-empty path adds \<open>k\<close> to the prepend count and to the
  length, and changes neither the origin AS nor which ASNs the path contains.
\<close>

theorem padding_effect:
  assumes "path \<noteq> []"
  shows "as_path_prepends (replicate k (hd path) @ path) = as_path_prepends path + of_nat k
    \<and> path_length (replicate k (hd path) @ path) = path_length path + of_nat k
    \<and> origin_asn (replicate k (hd path) @ path) = origin_asn path
    \<and> path_contains (replicate k (hd path) @ path) = path_contains path"
proof -
  have "as_path_prepends (replicate k (hd path) @ path) = as_path_prepends path + of_nat k"
  proof (induction k)
    case (Suc k)
    obtain zs where zs: "replicate k (hd path) @ path = hd path # zs"
      using assms by (cases k; cases path) auto
    have "as_path_prepends (hd path # hd path # zs) = 1 + as_path_prepends (hd path # zs)"
      by (simp add: as_path_prepends_def prepends_foldl)
    with Suc zs show ?case by (simp add: zs)
  qed simp
  moreover have "path_length (replicate k (hd path) @ path) = path_length path + of_nat k"
    by (simp add: path_length_def)
  moreover have "origin_asn (replicate k (hd path) @ path) = origin_asn path"
    using assms by (simp add: origin_asn_def)
  moreover have "path_contains (replicate k (hd path) @ path) = path_contains path"
    using assms by (auto simp: path_contains_def fun_eq_iff)
  ultimately show ?thesis by blast
qed

theorem padding_effect_witness:
  "as_path_prepends (replicate 2 174 @ [174, 13335]) = as_path_prepends [174, 13335] + 2
   \<and> origin_asn (replicate 2 174 @ [174, 13335]) = Some 13335"
  using padding_effect [of "[174, 13335]" 2] by (simp add: origin_asn_def)

end
