(* ===== verification/Inet.thy ===== *)
theory Inet
  imports Bytes
begin

text \<open>
  \<open>bgp-core/src/inet.rs\<close>: the three field values of a DuckDB \<open>INET\<close> cell.

  \<^item> \<open>ip_addr\<close> is \<open>std::net::IpAddr\<close>. An address is kept as its network-order integer, so it has
    exactly 4 or 16 octets; \<open>octets\<close> is the accessor the code calls.
  \<^item> \<open>inet_val\<close> is the struct \<open>InetVal\<close>, \<open>encode\<close> and \<open>encode_ip\<close> the two functions.
  The lemmas show that the encoding loses nothing, that the stored \<open>HUGEINT\<close> is the value the
  module's documentation promises, and that its signed order is the address order.
\<close>

datatype ip_addr = V4 u32 | V6 u128

fun octets :: "ip_addr \<Rightarrow> u8 list" where
  "octets (V4 a) = to_be_bytes 4 a"
| "octets (V6 a) = to_be_bytes 16 a"

record inet_val =
  ip_type :: u8
  address_le :: "u8 list"
  mask :: u16

definition IP_TYPE_V4 :: u8 where "IP_TYPE_V4 = 1"
definition IP_TYPE_V6 :: u8 where "IP_TYPE_V6 = 2"

fun encode :: "ip_addr \<Rightarrow> u16 \<Rightarrow> inet_val" where
  "encode (V4 v4) m =
     (let addr = (ucast (from_be_bytes (octets (V4 v4)) :: u32) :: u128)
      in \<lparr>ip_type = IP_TYPE_V4, address_le = to_le_bytes 16 addr, mask = m\<rparr>)"
| "encode (V6 v6) m =
     (let be = (from_be_bytes (octets (V6 v6)) :: u128);
          flipped = be XOR push_bit 127 1
      in \<lparr>ip_type = IP_TYPE_V6, address_le = to_le_bytes 16 flipped, mask = m\<rparr>)"

fun encode_ip :: "ip_addr \<Rightarrow> inet_val" where
  "encode_ip (V4 a) = encode (V4 a) 32"
| "encode_ip (V6 a) = encode (V6 a) 128"

text \<open>How DuckDB reads the address child: a little-endian signed 128-bit integer.\<close>

definition hugeint :: "inet_val \<Rightarrow> int" where
  "hugeint v = sint (from_le_bytes (address_le v) :: u128)"

text \<open>The value each address stands for, as an integer.\<close>

fun addr_value :: "ip_addr \<Rightarrow> int" where
  "addr_value (V4 a) = uint a"
| "addr_value (V6 a) = uint a"

text \<open>The order of \<open>std::net::IpAddr\<close>: IPv4 before IPv6, and by value within a family.\<close>

instantiation ip_addr :: linorder
begin

definition less_eq_ip_addr :: "ip_addr \<Rightarrow> ip_addr \<Rightarrow> bool" where
  "a \<le> b \<longleftrightarrow>
     (case a of
        V4 x \<Rightarrow> (case b of V4 y \<Rightarrow> x \<le> y | V6 _ \<Rightarrow> True)
      | V6 x \<Rightarrow> (case b of V4 _ \<Rightarrow> False | V6 y \<Rightarrow> x \<le> y))"

definition less_ip_addr :: "ip_addr \<Rightarrow> ip_addr \<Rightarrow> bool" where
  "a < b \<longleftrightarrow> a \<le> b \<and> \<not> b \<le> (a :: ip_addr)"

instance
  by intro_classes (auto simp: less_eq_ip_addr_def less_ip_addr_def split: ip_addr.splits)

end

lemma ip_less_simps [simp]:
  "V4 a < V4 b \<longleftrightarrow> a < b" "V6 a' < V6 b' \<longleftrightarrow> a' < b'" "V4 a < V6 b'" "\<not> V6 a' < V4 b"
  by (auto simp: less_ip_addr_def less_eq_ip_addr_def)

subsection \<open>Closed forms\<close>

lemma encode_V4: "encode (V4 a) m = \<lparr>ip_type = 1, address_le = to_le_bytes 16 (ucast a :: u128), mask = m\<rparr>"
  by (simp add: Let_def IP_TYPE_V4_def from_to_be_bytes)

lemma encode_V6:
  "encode (V6 a) m = \<lparr>ip_type = 2, address_le = to_le_bytes 16 (a XOR push_bit 127 1), mask = m\<rparr>"
  by (simp add: Let_def IP_TYPE_V6_def from_to_be_bytes)

declare encode.simps [simp del]

lemmas encode_simps = encode_V4 encode_V6

lemma encode_fields:
  "mask (encode ip m) = m"
  "length (address_le (encode ip m)) = 16"
  "ip_type (encode ip m) = (case ip of V4 _ \<Rightarrow> 1 | V6 _ \<Rightarrow> 2)"
  by (cases ip; simp add: encode_simps)+

subsection \<open>The stored integer\<close>

lemma xor_top_bit:
  fixes a :: "'a::len word"
  assumes top: "LENGTH('a) = Suc n"
  shows "a XOR push_bit n 1 = a + push_bit n 1"
proof (cases "bit a n")
  case False
  then have "a AND push_bit n 1 = 0"
    by (auto intro!: bit_word_eqI simp: bit_simps)
  then have "a + push_bit n 1 = a OR push_bit n 1"
    by (simp add: disjunctive_add_eq_or)
  also have "\<dots> = a XOR push_bit n 1"
    using False by (auto intro!: bit_word_eqI simp: bit_simps)
  finally show ?thesis by simp
next
  case True
  let ?b = "a XOR push_bit n 1"
  have "?b AND push_bit n 1 = 0"
    using True by (auto intro!: bit_word_eqI simp: bit_simps)
  then have "?b + push_bit n 1 = ?b OR push_bit n 1"
    by (simp add: disjunctive_add_eq_or)
  also have "\<dots> = a"
    using True by (auto intro!: bit_word_eqI simp: bit_simps)
  finally have "a + push_bit n 1 = ?b + (push_bit n 1 + push_bit n 1)"
    by (metis add.assoc)
  also have "push_bit n 1 + push_bit n 1 = (push_bit (Suc n) 1 :: 'a word)"
    by (simp add: push_bit_eq_mult)
  also have "\<dots> = 0"
    using top by (auto intro!: bit_word_eqI simp: bit_simps)
  finally show ?thesis by simp
qed

lemma sint_xor_top_bit:
  fixes a :: "'a::len word"
  assumes top: "LENGTH('a) = Suc n"
  shows "sint (a XOR push_bit n 1) = uint a - 2 ^ n"
proof -
  have u: "uint (a XOR push_bit n 1) = (uint a + 2 ^ n) mod 2 ^ Suc n"
  proof -
    have "(0 :: 'a word) < 2 ^ n" using top by (simp add: word_gt_0)
    moreover have "a XOR push_bit n 1 = a + 2 ^ n"
      using xor_top_bit [OF top, of a] by simp
    ultimately show ?thesis
      using top by (simp only: uint_word_ariths uint_2p)
  qed
  have "sint (a XOR push_bit n 1) = (uint (a XOR push_bit n 1) + 2 ^ n) mod 2 ^ Suc n - 2 ^ n"
    using top by (simp add: sint_uint signed_take_bit_eq_take_bit_shift take_bit_eq_mod)
  also have "(uint (a XOR push_bit n 1) + 2 ^ n) mod 2 ^ Suc n = (uint a + 2 ^ Suc n) mod 2 ^ Suc n"
    by (simp only: u mod_add_left_eq) (simp add: ac_simps)
  also have "\<dots> = uint a"
    using uint_lt2p [of a] top by simp
  finally show ?thesis .
qed

lemma sint_ucast_smaller:
  fixes a :: "'a::len word"
  assumes "LENGTH('a) < LENGTH('b::len)"
  shows "sint (ucast a :: 'b word) = uint a"
proof -
  have "uint a < 2 ^ LENGTH('a)" by (rule uint_lt2p)
  also have "(2::int) ^ LENGTH('a) \<le> 2 ^ (LENGTH('b) - 1)"
    using assms by (intro power_increasing) auto
  finally have less: "uint a < 2 ^ (LENGTH('b) - 1)" .
  have "- (2 ^ (LENGTH('b) - 1)) \<le> (0::int)" by simp
  also have "0 \<le> uint a" by simp
  finally show ?thesis
    using assms less by (simp add: sint_uint uint_up_ucast is_up signed_take_bit_int_eq_self)
qed

lemma hugeint_encode_V4: "hugeint (encode (V4 a) m) = uint a"
  by (simp add: hugeint_def encode_V4 from_to_le_bytes sint_ucast_smaller)

lemma hugeint_encode_V6: "hugeint (encode (V6 a) m) = uint a - 2 ^ 127"
  using sint_xor_top_bit [of 127 a]
  by (simp add: hugeint_def encode_V6 from_to_le_bytes)

lemmas hugeint_simps = hugeint_encode_V4 hugeint_encode_V6

lemma encode_inject: "encode ip m = encode ip' m' \<longleftrightarrow> ip = ip' \<and> m = m'"
proof
  assume e: "encode ip m = encode ip' m'"
  show "ip = ip' \<and> m = m'"
  proof (cases ip; cases ip')
    fix a b assume ab: "ip = V4 a" "ip' = V4 b"
    with e have "uint a = uint b" by (metis hugeint_encode_V4)
    with e ab show ?thesis by (metis encode_fields(1) word_uint_eq_iff)
  next
    fix a b assume ab: "ip = V6 a" "ip' = V6 b"
    with e have "uint a - 2 ^ 127 = uint b - 2 ^ 127" by (metis hugeint_encode_V6)
    then have "uint a = uint b" by simp
    with e ab show ?thesis by (metis encode_fields(1) word_uint_eq_iff)
  qed (use e in \<open>simp_all add: encode_simps\<close>)
qed simp

lemma encode_ip_inject: "encode_ip a = encode_ip b \<longleftrightarrow> a = b"
  by (cases a; cases b; simp add: encode_inject)

subsection \<open>Properties\<close>

text \<open>
  C19: the struct keeps the order of addresses: comparing the type field first and the stored
  \<open>HUGEINT\<close> next, as signed numbers the way DuckDB does, is exactly the order of \<open>IpAddr\<close>, across
  families and whatever the masks; the stored IPv4 value is the address itself and the IPv6 value is
  the address less \<open>2 ^ 127\<close>.
\<close>

theorem hugeint_order:
  "(ip < ip' \<longleftrightarrow>
      ip_type (encode ip m) < ip_type (encode ip' m')
      \<or> ip_type (encode ip m) = ip_type (encode ip' m') \<and> hugeint (encode ip m) < hugeint (encode ip' m'))
   \<and> hugeint (encode ip m) = addr_value ip - (case ip of V4 _ \<Rightarrow> 0 | V6 _ \<Rightarrow> 2 ^ 127)"
  by (cases ip; cases ip'; simp add: hugeint_simps encode_fields(3) word_less_def del: encode.simps)

end
