(* ===== verification/Rust_Str.thy ===== *)
theory Rust_Str
  imports Prelude
begin

text \<open>
  The operations of Rust's \<open>str\<close> that the program calls, on UTF-8 byte strings
  (\<open>string\<close>, one \<open>char\<close> per byte): \<open>trim\<close>, \<open>split\<close>, \<open>split_once\<close>, \<open>find\<close>, \<open>rfind\<close>,
  \<open>contains\<close>, \<open>replace\<close>, \<open>to_ascii_lowercase\<close>, \<open>eq_ignore_ascii_case\<close>, \<open>join\<close>, the unsigned
  \<open>FromStr\<close> parsers and the decimal \<open>Display\<close> of an integer. These are the standard library,
  so they carry no entry in the source map; the lemmas say what the components need of them.
\<close>

subsection \<open>Characters a string literal cannot hold\<close>

definition nl :: string where "nl = [CHR 0x0A]"

definition em_dash :: string where "em_dash = [CHR 0xE2, CHR 0x80, CHR 0x94]"

definition arrow_right :: string where "arrow_right = [CHR 0xE2, CHR 0x86, CHR 0x92]"

subsection \<open>White space\<close>

text \<open>The UTF-8 encodings of the characters with Unicode's \<open>White_Space\<close> property.\<close>

definition ws_chars :: "string list" where
  "ws_chars =
     [[CHR 0x09], [CHR 0x0A], [CHR 0x0B], [CHR 0x0C], [CHR 0x0D], [CHR 0x20],
      [CHR 0xC2, CHR 0x85], [CHR 0xC2, CHR 0xA0], [CHR 0xE1, CHR 0x9A, CHR 0x80]]
     @ map (\<lambda>c. [CHR 0xE2, CHR 0x80, c])
         [CHR 0x80, CHR 0x81, CHR 0x82, CHR 0x83, CHR 0x84, CHR 0x85, CHR 0x86, CHR 0x87,
          CHR 0x88, CHR 0x89, CHR 0x8A, CHR 0xA8, CHR 0xA9, CHR 0xAF]
     @ [[CHR 0xE2, CHR 0x81, CHR 0x9F], [CHR 0xE3, CHR 0x80, CHR 0x80]]"

definition starts_ws :: "string list \<Rightarrow> string \<Rightarrow> string option" where
  "starts_ws ws s = find (\<lambda>w. w \<noteq> [] \<and> take (length w) s = w) ws"

function strip_seqs :: "string list \<Rightarrow> string \<Rightarrow> string" where
  "strip_seqs ws s = (case starts_ws ws s of
      None \<Rightarrow> s
    | Some w \<Rightarrow> strip_seqs ws (drop (length w) s))"
  by pat_completeness auto
termination
proof (relation "measure (\<lambda>(ws, s). length s)", simp)
  fix ws s w
  assume "starts_ws ws s = Some w"
  then have "w \<noteq> []" "take (length w) s = w"
    by (auto simp: starts_ws_def dest: find_Some_in)
  then have "s \<noteq> []" "length w > 0" by auto
  then show "((ws, drop (length w) s), ws, s) \<in> measure (\<lambda>(ws, s). length s)"
    by simp
qed

declare strip_seqs.simps [simp del]

definition trim_start :: "string \<Rightarrow> string" where
  "trim_start s = strip_seqs ws_chars s"

definition trim_end :: "string \<Rightarrow> string" where
  "trim_end s = rev (strip_seqs (map rev ws_chars) (rev s))"

definition trim :: "string \<Rightarrow> string" where
  "trim s = trim_end (trim_start s)"

text \<open>A printable ASCII character neither starts nor ends a white-space encoding.\<close>

definition ascii_graph :: "char \<Rightarrow> bool" where
  "ascii_graph c \<longleftrightarrow> 33 \<le> (of_char c :: nat) \<and> (of_char c :: nat) \<le> 126"

lemma ws_chars_ends:
  "w \<in> set ws_chars \<Longrightarrow> w \<noteq> [] \<and> \<not> ascii_graph (hd w) \<and> \<not> ascii_graph (last w)"
  by (auto simp: ws_chars_def ascii_graph_def)

lemma strip_seqs_stop:
  assumes "\<And>w. w \<in> set ws \<Longrightarrow> w \<noteq> [] \<Longrightarrow> hd w \<noteq> hd s"
  shows "strip_seqs ws s = s"
proof -
  have "starts_ws ws s = None"
    unfolding starts_ws_def find_None_iff
  proof (rule notI, elim exE conjE)
    fix w assume "w \<in> set ws" "w \<noteq> []" "take (length w) s = w"
    then have "hd w = hd s" by (metis hd_take length_greater_0_conv)
    with assms \<open>w \<in> set ws\<close> \<open>w \<noteq> []\<close> show False by blast
  qed
  then show ?thesis by (simp add: strip_seqs.simps)
qed

lemma strip_seqs_Nil [simp]: "strip_seqs ws [] = []"
  by (subst strip_seqs.simps) (auto simp: starts_ws_def split: option.split dest: find_Some_in)

lemma trim_graph [str_simps]:
  assumes "s \<noteq> []" "ascii_graph (hd s)" "ascii_graph (last s)"
  shows "trim s = s"
proof -
  have "trim_start s = s"
    unfolding trim_start_def
    by (rule strip_seqs_stop) (use assms ws_chars_ends in metis)
  moreover have "strip_seqs (map rev ws_chars) (rev s) = rev s"
  proof (rule strip_seqs_stop)
    fix w assume "w \<in> set (map rev ws_chars)" "w \<noteq> []"
    then obtain v where v: "v \<in> set ws_chars" "w = rev v" by auto
    then have "hd w = last v" using ws_chars_ends [OF v(1)] by (simp add: hd_rev)
    then show "hd w \<noteq> hd (rev s)"
      using ws_chars_ends [OF v(1)] assms by (metis hd_rev)
  qed
  ultimately show ?thesis by (simp add: trim_def trim_end_def)
qed

lemma trim_Nil [simp]: "trim [] = []"
  by (simp add: trim_def trim_start_def trim_end_def)

text \<open>A blank before the text is dropped.\<close>

lemma trim_start_space: "trim_start (CHR '' '' # s) = trim_start s"
proof -
  have "starts_ws ws_chars (CHR '' '' # s) = Some [CHR '' '']"
    by (simp add: starts_ws_def ws_chars_def)
  then show ?thesis
    unfolding trim_start_def by (subst strip_seqs.simps) simp
qed

lemma trim_leading_space: "trim (CHR '' '' # s) = trim s"
  by (simp add: trim_def trim_start_space)

subsection \<open>Splitting\<close>

text \<open>\<open>s.split(c)\<close>: always at least one part.\<close>

fun split_on :: "char \<Rightarrow> string \<Rightarrow> string list" where
  "split_on c [] = [[]]"
| "split_on c (x # xs) =
     (if x = c then [] # split_on c xs
      else case split_on c xs of [] \<Rightarrow> [[x]] | p # ps \<Rightarrow> (x # p) # ps)"

lemma split_on_not_Nil [simp]: "split_on c s \<noteq> []"
  by (induction s) (auto split: list.split)

lemma split_on_free: "c \<notin> set s \<Longrightarrow> split_on c s = [s]"
  by (induction s) auto

lemma split_on_sep: "c \<notin> set a \<Longrightarrow> split_on c (a @ c # b) = a # split_on c b"
  by (induction a) auto

lemma split_on_parts: "p \<in> set (split_on c s) \<Longrightarrow> c \<notin> set p"
proof (induction s arbitrary: p)
  case (Cons x xs)
  then show ?case by (cases "split_on c xs") (fastforce split: if_splits)+
qed simp

text \<open>\<open>s.split_once(pat)\<close>: the text before and after the first occurrence of \<open>pat\<close>.\<close>

fun split_once :: "string \<Rightarrow> string \<Rightarrow> (string \<times> string) option" where
  "split_once pat [] = (if pat = [] then Some ([], []) else None)"
| "split_once pat (x # xs) =
     (if take (length pat) (x # xs) = pat then Some ([], drop (length pat) (x # xs))
      else map_option (\<lambda>(a, b). (x # a, b)) (split_once pat xs))"

lemma split_once_Some: "split_once pat s = Some (a, b) \<Longrightarrow> s = a @ pat @ b"
proof (induction pat s arbitrary: a b rule: split_once.induct)
  case (2 pat x xs)
  show ?case
  proof (cases "take (length pat) (x # xs) = pat")
    case True
    with 2(2) show ?thesis by (metis append_Nil append_take_drop_id option.inject prod.inject split_once.simps(2))
  next
    case False
    with 2 show ?thesis by auto
  qed
qed (auto split: if_splits)

definition contains :: "string \<Rightarrow> string \<Rightarrow> bool" where
  "contains pat s \<longleftrightarrow> split_once pat s \<noteq> None"

lemma contains_iff: "contains pat s \<longleftrightarrow> (\<exists>a b. s = a @ pat @ b)"
proof
  assume "contains pat s"
  then show "\<exists>a b. s = a @ pat @ b"
    unfolding contains_def using split_once_Some by (metis option.exhaust prod.exhaust)
next
  assume "\<exists>a b. s = a @ pat @ b"
  then obtain a b where "s = a @ pat @ b" by blast
  then show "contains pat s"
    unfolding contains_def
  proof (induction a arbitrary: s)
    case Nil
    then have "take (length pat) s = pat" by simp
    then show ?case by (cases s) auto
  qed (auto split: if_splits)
qed

definition contains_any :: "char list \<Rightarrow> string \<Rightarrow> bool" where
  "contains_any cs s \<longleftrightarrow> (\<exists>c \<in> set s. c \<in> set cs)"

text \<open>\<open>s.find(cs)\<close> and \<open>s.rfind(c)\<close>: byte indices.\<close>

fun find_any :: "char list \<Rightarrow> string \<Rightarrow> nat option" where
  "find_any cs [] = None"
| "find_any cs (x # xs) = (if x \<in> set cs then Some 0 else map_option Suc (find_any cs xs))"

fun rfind :: "char \<Rightarrow> string \<Rightarrow> nat option" where
  "rfind c [] = None"
| "rfind c (x # xs) = (case rfind c xs of
      Some i \<Rightarrow> Some (Suc i)
    | None \<Rightarrow> if x = c then Some 0 else None)"

lemma find_any_None: "find_any cs s = None \<longleftrightarrow> \<not> contains_any cs s"
  by (induction s) (auto simp: contains_any_def)

lemma find_any_Some:
  "find_any cs s = Some i \<longleftrightarrow> i < length s \<and> s ! i \<in> set cs \<and> (\<forall>j < i. s ! j \<notin> set cs)"
proof (induction s arbitrary: i)
  case (Cons x xs)
  show ?case
    by (cases i) (auto simp: Cons less_Suc_eq_0_disj)
qed simp

lemma rfind_None: "rfind c s = None \<longleftrightarrow> c \<notin> set s"
  by (induction s) (auto split: option.splits)

lemma rfind_Some:
  "rfind c s = Some i \<Longrightarrow> i < length s \<and> s ! i = c \<and> c \<notin> set (drop (Suc i) s)"
  by (induction s arbitrary: i) (auto simp: rfind_None split: option.splits if_splits)

subsection \<open>Rewriting characters\<close>

definition replace_char :: "char \<Rightarrow> string \<Rightarrow> string \<Rightarrow> string" where
  "replace_char c r s = concat (map (\<lambda>x. if x = c then r else [x]) s)"

lemma replace_char_simps [simp]:
  "replace_char c r [] = []"
  "replace_char c r (x # xs) = (if x = c then r else [x]) @ replace_char c r xs"
  "replace_char c r (xs @ ys) = replace_char c r xs @ replace_char c r ys"
  by (auto simp: replace_char_def)

definition lower_char :: "char \<Rightarrow> char" where
  "lower_char c = (if 65 \<le> (of_char c :: nat) \<and> (of_char c :: nat) \<le> 90
                   then char_of ((of_char c :: nat) + 32) else c)"

definition ascii_lower :: "string \<Rightarrow> string" where
  "ascii_lower s = map lower_char s"

definition eq_ignore_ascii_case :: "string \<Rightarrow> string \<Rightarrow> bool" where
  "eq_ignore_ascii_case a b \<longleftrightarrow> ascii_lower a = ascii_lower b"

definition is_alnum :: "char \<Rightarrow> bool" where
  "is_alnum c \<longleftrightarrow> (let n = (of_char c :: nat) in
     48 \<le> n \<and> n \<le> 57 \<or> 65 \<le> n \<and> n \<le> 90 \<or> 97 \<le> n \<and> n \<le> 122)"

lemma lower_char_idem [simp]: "lower_char (lower_char c) = lower_char c"
  by (auto simp: lower_char_def)

lemma ascii_lower_idem [simp]: "ascii_lower (ascii_lower s) = ascii_lower s"
  by (simp add: ascii_lower_def)

fun join :: "string \<Rightarrow> string list \<Rightarrow> string" where
  "join sep [] = []"
| "join sep [x] = x"
| "join sep (x # y # ys) = x @ sep @ join sep (y # ys)"

lemma join_Cons_not_Nil: "ys \<noteq> [] \<Longrightarrow> join sep (x # ys) = x @ sep @ join sep ys"
  by (cases ys) auto

lemma join_split_on: "join [c] (split_on c s) = s"
proof (induction s)
  case (Cons x xs)
  obtain p ps where p: "split_on c xs = p # ps"
    by (cases "split_on c xs") auto
  with Cons show ?case by (cases ps) (auto simp: join_Cons_not_Nil)
qed simp

end
