(* ===== verification/Rust_Num.thy ===== *)
theory Rust_Num
  imports Rust_Str
begin

text \<open>
  Decimal integers of the standard library: \<open>parse_unsigned\<close> is \<open>FromStr\<close> for an unsigned type
  with \<open>limit\<close> values (an optional leading plus sign, at least one digit, digits only, and an
  error on overflow), and \<open>dec\<close> is \<open>Display\<close>. The round trip and the character set of a
  printed number are what the community strings rest on.
\<close>

definition is_digit :: "char \<Rightarrow> bool" where
  "is_digit c \<longleftrightarrow> 48 \<le> (of_char c :: nat) \<and> (of_char c :: nat) \<le> 57"

definition digit_val :: "char \<Rightarrow> nat" where
  "digit_val c = of_char c - 48"

definition digit_char :: "nat \<Rightarrow> char" where
  "digit_char d = char_of (48 + d)"

fun parse_digits :: "nat \<Rightarrow> nat \<Rightarrow> string \<Rightarrow> nat option" where
  "parse_digits limit acc [] = Some acc"
| "parse_digits limit acc (c # cs) =
     (if is_digit c then
        let v = acc * 10 + digit_val c
        in if v < limit then parse_digits limit v cs else None
      else None)"

definition parse_unsigned :: "nat \<Rightarrow> string \<Rightarrow> nat option" where
  "parse_unsigned limit s =
     (case s of
        [] \<Rightarrow> None
      | c # cs \<Rightarrow>
          if c = CHR ''+'' then (if cs = [] then None else parse_digits limit 0 cs)
          else parse_digits limit 0 s)"

definition parse_u32 :: "string \<Rightarrow> u32 option" where
  "parse_u32 s = map_option of_nat (parse_unsigned (2 ^ 32) s)"

fun dec :: "nat \<Rightarrow> string" where
  "dec n = (if n < 10 then [digit_char n] else dec (n div 10) @ [digit_char (n mod 10)])"

declare dec.simps [simp del]

definition show_u32 :: "u32 \<Rightarrow> string" where
  "show_u32 w = dec (unat w)"

lemma digit_char [simp]:
  assumes "d < 10"
  shows "is_digit (digit_char d)" "digit_val (digit_char d) = d"
  using assms by (auto simp: is_digit_def digit_val_def digit_char_def of_char_of)

lemma dec_digits: "\<forall>c \<in> set (dec n). is_digit c"
proof (induction n rule: dec.induct)
  case (1 n)
  show ?case
  proof (cases "n < 10")
    case True
    then show ?thesis by (subst dec.simps) simp
  next
    case False
    with 1 have "\<forall>c \<in> set (dec (n div 10)). is_digit c" by blast
    with False show ?thesis by (subst dec.simps) auto
  qed
qed

lemma dec_not_Nil [simp]: "dec n \<noteq> []"
  by (subst dec.simps) simp

lemma digit_not_sep:
  "is_digit c \<Longrightarrow> c \<noteq> CHR '':'' \<and> c \<noteq> CHR ''+'' \<and> ascii_graph c"
  by (auto simp: is_digit_def ascii_graph_def)

lemma dec_free: "CHR '':'' \<notin> set (dec n)" "CHR ''+'' \<notin> set (dec n)"
  using dec_digits digit_not_sep by fastforce+

lemma parse_digits_append:
  "parse_digits limit acc (xs @ ys) =
     Option.bind (parse_digits limit acc xs) (\<lambda>v. parse_digits limit v ys)"
  by (induction xs arbitrary: acc) (auto simp: Let_def)

lemma parse_digits_dec: "n < limit \<Longrightarrow> parse_digits limit 0 (dec n) = Some n"
proof (induction n rule: dec.induct)
  case (1 n)
  show ?case
  proof (cases "n < 10")
    case True
    with 1(2) show ?thesis by (subst dec.simps) simp
  next
    case False
    with 1 have "parse_digits limit 0 (dec (n div 10)) = Some (n div 10)" by simp
    with False 1(2) show ?thesis
      by (subst dec.simps) (simp add: parse_digits_append Let_def)
  qed
qed

lemma parse_unsigned_dec [str_simps]: "n < limit \<Longrightarrow> parse_unsigned limit (dec n) = Some n"
  using dec_free(2) [of n] parse_digits_dec [of n limit]
  by (cases "dec n") (auto simp: parse_unsigned_def)

lemma parse_u32_show [str_simps, simp]: "parse_u32 (show_u32 w) = Some w"
proof -
  have "unat w < 2 ^ 32" using unsigned_less [of w] by simp
  then show ?thesis by (simp add: parse_u32_def show_u32_def parse_unsigned_dec)
qed

lemma parse_digits_bound:
  "parse_digits limit acc s = Some n \<Longrightarrow> acc < limit \<Longrightarrow> n < limit"
  by (induction s arbitrary: acc) (auto simp: Let_def split: if_splits)

lemma parse_digits_digits: "parse_digits limit acc s = Some n \<Longrightarrow> \<forall>c \<in> set s. is_digit c"
  by (induction s arbitrary: acc) (auto simp: Let_def split: if_splits)

lemma parse_unsigned_bound: "parse_unsigned limit s = Some n \<Longrightarrow> 0 < limit \<Longrightarrow> n < limit"
  by (auto simp: parse_unsigned_def dest: parse_digits_bound split: list.splits if_splits
      simp del: parse_digits.simps)

lemma show_u32_free: "CHR '':'' \<notin> set (show_u32 w)"
  by (simp add: show_u32_def dec_free)

lemma show_u32_ends:
  "show_u32 w \<noteq> []" "ascii_graph (hd (show_u32 w))" "ascii_graph (last (show_u32 w))"
  using dec_digits [of "unat w"] digit_not_sep
  by (auto simp: show_u32_def)

end
