(* ===== verification/Net_Guard.thy ===== *)
theory Net_Guard
  imports Inet Rust_Num
begin

text \<open>
  The server-side request guard of \<open>bgp-worker/src/cloud.rs\<close>: \<open>is_internal_ip\<close> and the address
  parser of the standard library it is reached through (\<open>host.parse::<IpAddr>()\<close>), written after
  the library's recursive-descent parser. \<open>guard_host\<close> itself is in \<open>Cloud\<close>. The lemmas give the
  guarded IPv4 space as a list of networks and connect the parser with the printed form.
\<close>

subsection \<open>Address predicates\<close>

definition octet :: "ip_addr \<Rightarrow> nat \<Rightarrow> u8" where
  "octet ip i = octets ip ! i"

text \<open>\<open>Ipv4Addr::is_loopback\<close>, \<open>is_private\<close>, \<open>is_link_local\<close>, \<open>is_unspecified\<close>, \<open>is_broadcast\<close>.\<close>

definition v4_is_loopback :: "u32 \<Rightarrow> bool" where
  "v4_is_loopback a \<longleftrightarrow> octet (V4 a) 0 = 127"

definition v4_is_private :: "u32 \<Rightarrow> bool" where
  "v4_is_private a \<longleftrightarrow>
     octet (V4 a) 0 = 10
     \<or> octet (V4 a) 0 = 172 \<and> 16 \<le> octet (V4 a) 1 \<and> octet (V4 a) 1 \<le> 31
     \<or> octet (V4 a) 0 = 192 \<and> octet (V4 a) 1 = 168"

definition v4_is_link_local :: "u32 \<Rightarrow> bool" where
  "v4_is_link_local a \<longleftrightarrow> octet (V4 a) 0 = 169 \<and> octet (V4 a) 1 = 254"

definition v4_is_unspecified :: "u32 \<Rightarrow> bool" where
  "v4_is_unspecified a \<longleftrightarrow> a = 0"

definition v4_is_broadcast :: "u32 \<Rightarrow> bool" where
  "v4_is_broadcast a \<longleftrightarrow> octets (V4 a) = [255, 255, 255, 255]"

text \<open>\<open>Ipv6Addr::segments()[0]\<close> and \<open>Ipv6Addr::to_ipv4_mapped\<close>.\<close>

definition segment0 :: "u128 \<Rightarrow> u16" where
  "segment0 a = ucast (drop_bit 112 a)"

definition to_ipv4_mapped :: "u128 \<Rightarrow> u32 option" where
  "to_ipv4_mapped a = (if drop_bit 32 a = 0xffff then Some (ucast a) else None)"

definition v4_internal :: "u32 \<Rightarrow> bool" where
  "v4_internal v4 \<longleftrightarrow>
     v4_is_loopback v4 \<or> v4_is_private v4 \<or> v4_is_link_local v4 \<or> v4_is_unspecified v4
     \<or> v4_is_broadcast v4
     \<or> octet (V4 v4) 0 = 0
     \<or> octet (V4 v4) 0 = 100 \<and> octet (V4 v4) 1 AND 0xc0 = 64"

fun is_internal_ip :: "ip_addr \<Rightarrow> bool" where
  "is_internal_ip (V4 v4) \<longleftrightarrow> v4_internal v4"
| "is_internal_ip (V6 v6) \<longleftrightarrow>
     v6 = 1 \<or> v6 = 0
     \<or> segment0 v6 AND 0xfe00 = 0xfc00
     \<or> segment0 v6 AND 0xffc0 = 0xfe80
     \<or> (case to_ipv4_mapped v6 of None \<Rightarrow> False | Some v4 \<Rightarrow> v4_internal v4)"

subsection \<open>Networks\<close>

definition in_net :: "'a::len word \<Rightarrow> 'a word \<Rightarrow> nat \<Rightarrow> bool" where
  "in_net a net len \<longleftrightarrow> drop_bit (LENGTH('a) - len) a = drop_bit (LENGTH('a) - len) net"

definition internal_v4_nets :: "(u32 \<times> nat) list" where
  "internal_v4_nets =
     [(0x00000000, 8), (0x0A000000, 8), (0x64400000, 10), (0x7F000000, 8), (0xA9FE0000, 16),
      (0xAC100000, 12), (0xC0A80000, 16), (0xFFFFFFFF, 32)]"

definition internal_v6_nets :: "(u128 \<times> nat) list" where
  "internal_v6_nets =
     [(0, 128), (1, 128), (0xFC000000000000000000000000000000, 7),
      (0xFE800000000000000000000000000000, 10)]"

text \<open>An IPv4 network seen inside \<open>::ffff:0:0/96\<close>.\<close>

definition mapped_net :: "u32 \<times> nat \<Rightarrow> u128 \<times> nat" where
  "mapped_net = (\<lambda>(net, len). (push_bit 32 0xffff + ucast net, 96 + len))"

definition in_nets :: "'a::len word \<Rightarrow> ('a word \<times> nat) list \<Rightarrow> bool" where
  "in_nets a nets \<longleftrightarrow> (\<exists>(net, len) \<in> set nets. in_net a net len)"

lemma unat_drop_bit: "unat (drop_bit n a) = unat (a::'a::len word) div 2 ^ n"
  using drop_bit_eq_div [of n "unat a"] by (simp add: unat_drop_bit_eq)

lemma unat_in_net:
  fixes a :: "'a::len word"
  shows "in_net a net len \<longleftrightarrow>
    unat a div 2 ^ (LENGTH('a) - len) = unat net div 2 ^ (LENGTH('a) - len)"
  unfolding in_net_def by (simp add: word_unat_eq_iff unat_drop_bit)

lemma top_bits_iff:
  fixes w c :: "'a::len word"
  shows "w AND NOT (Bit_Operations.mask n) = c AND NOT (Bit_Operations.mask n)
    \<longleftrightarrow> drop_bit n w = drop_bit n c" (is "?l = ?r \<longleftrightarrow> _")
proof
  assume "drop_bit n w = drop_bit n c"
  then have eq: "bit w (n + k) \<longleftrightarrow> bit c (n + k)" for k
    by (metis bit_drop_bit_eq comp_apply)
  show "?l = ?r"
  proof (rule bit_word_eqI)
    fix k
    show "bit ?l k \<longleftrightarrow> bit ?r k"
      using eq [of "k - n"] by (cases "n \<le> k") (auto simp: bit_simps)
  qed
next
  assume *: "?l = ?r"
  show "drop_bit n w = drop_bit n c"
  proof (rule bit_word_eqI)
    fix k assume "k < LENGTH('a)"
    have "bit ?l (n + k) \<longleftrightarrow> bit ?r (n + k)" using * by simp
    then show "bit (drop_bit n w) k \<longleftrightarrow> bit (drop_bit n c) k"
      by (auto simp: bit_simps dest: bit_imp_le_length)
  qed
qed

lemma octet_V4:
  "octet (V4 a) 0 = ucast (drop_bit 24 a)"
  "octet (V4 a) (Suc 0) = ucast (drop_bit 16 a)"
  by (simp_all add: octet_def to_be_bytes_def rev_nth nth_to_le_bytes)

lemma unat_octet:
  "unat (octet (V4 a) 0) = unat a div 2 ^ 24"
  "unat (octet (V4 a) (Suc 0)) = unat a div 2 ^ 16 mod 256"
proof -
  have "unat a < 2 ^ 32" using unsigned_less [of a] by simp
  then have "unat a div 2 ^ 24 < 256" by (simp add: less_mult_imp_div_less)
  then show "unat (octet (V4 a) 0) = unat a div 2 ^ 24"
    by (simp add: octet_V4 unsigned_ucast_eq unat_drop_bit take_bit_eq_mod del: div_le_dividend)
  show "unat (octet (V4 a) (Suc 0)) = unat a div 2 ^ 16 mod 256"
    by (simp add: octet_V4 unsigned_ucast_eq unat_drop_bit take_bit_eq_mod)
qed

lemma octet_0xc0: "unat ((o1 :: u8) AND 0xc0) = 64 \<longleftrightarrow> unat o1 div 64 = 1"
proof -
  have m: "(0xc0 :: u8) = NOT (Bit_Operations.mask 6)" "(64 :: u8) = 64 AND NOT (Bit_Operations.mask 6)"
    by (simp_all add: mask_eq_exp_minus_1)
  have "o1 AND 0xc0 = 64 \<longleftrightarrow> drop_bit 6 o1 = drop_bit 6 64"
    by (metis m top_bits_iff)
  then show ?thesis by (simp add: word_unat_eq_iff unat_drop_bit)
qed

lemma segment_masks:
  "(seg :: u16) AND 0xfe00 = 0xfc00 \<longleftrightarrow> unat seg div 2 ^ 9 = 126"
  "seg AND 0xffc0 = 0xfe80 \<longleftrightarrow> unat seg div 2 ^ 6 = 1018"
proof -
  have m: "(0xfe00 :: u16) = NOT (Bit_Operations.mask 9)"
    "(0xfc00 :: u16) = 0xfc00 AND NOT (Bit_Operations.mask 9)"
    "(0xffc0 :: u16) = NOT (Bit_Operations.mask 6)"
    "(0xfe80 :: u16) = 0xfe80 AND NOT (Bit_Operations.mask 6)"
    by (simp_all add: mask_eq_exp_minus_1)
  have "seg AND 0xfe00 = 0xfc00 \<longleftrightarrow> drop_bit 9 seg = drop_bit 9 0xfc00"
    by (metis m(1,2) top_bits_iff)
  then show "seg AND 0xfe00 = 0xfc00 \<longleftrightarrow> unat seg div 2 ^ 9 = 126"
    by (simp add: word_unat_eq_iff unat_drop_bit)
  have "seg AND 0xffc0 = 0xfe80 \<longleftrightarrow> drop_bit 6 seg = drop_bit 6 0xfe80"
    by (metis m(3,4) top_bits_iff)
  then show "seg AND 0xffc0 = 0xfe80 \<longleftrightarrow> unat seg div 2 ^ 6 = 1018"
    by (simp add: word_unat_eq_iff unat_drop_bit)
qed

lemma v4_broadcast_iff: "v4_is_broadcast a \<longleftrightarrow> unat a = 4294967295"
proof -
  have "to_be_bytes 4 (0xffffffff :: u32) = [255, 255, 255, 255]" by code_simp
  then have "v4_is_broadcast a \<longleftrightarrow> to_be_bytes 4 a = to_be_bytes 4 (0xffffffff :: u32)"
    by (simp only: v4_is_broadcast_def octets.simps)
  also have "\<dots> \<longleftrightarrow> a = 0xffffffff"
    by (simp add: to_be_bytes_def to_le_bytes_inject)
  finally show ?thesis by (simp add: word_unat_eq_iff)
qed

lemma split_at: "m \<le> n \<Longrightarrow> (x::nat) div 2 ^ n = x div 2 ^ m div 2 ^ (n - m)"
  by (metis div_mult2_eq le_add_diff_inverse power_add)

lemma net_boundary:
  fixes h :: nat
  assumes "k * d = 256" "j < k"
  shows "h div 256 = q \<and> h mod 256 div d = j \<longleftrightarrow> h div d = q * k + j"
proof -
  have d: "d > 0" using assms(1) by (cases d) auto
  have "h mod (d * k) div d = h div d mod k"
    using d by (simp add: mod_mult2_eq)
  moreover have "h div (d * k) = h div d div k" by (rule div_mult2_eq)
  moreover have "d * k = 256" using assms(1) by (simp add: mult.commute)
  moreover have "h div d = q * k + j \<longleftrightarrow> h div d div k = q \<and> h div d mod k = j"
    using assms(2) by (metis div_mult_mod_eq div_mult_self_is_m div_mult_self3 mod_mult_self3
        mod_less div_less add.right_neutral gr_implies_not0 bot_nat_0.not_eq_extremum)
  ultimately show ?thesis by simp
qed

lemma v4_internal_in_nets: "v4_internal a \<longleftrightarrow> in_nets a internal_v4_nets"
proof -
  define x where "x = unat a"
  have x: "x < 2 ^ 32" using unsigned_less [of a] by (simp add: x_def)
  have "v4_internal a \<longleftrightarrow>
     x div 2 ^ 24 = 127 \<or> x div 2 ^ 24 = 10
     \<or> x div 2 ^ 24 = 172 \<and> 16 \<le> x div 2 ^ 16 mod 256 \<and> x div 2 ^ 16 mod 256 \<le> 31
     \<or> x div 2 ^ 24 = 192 \<and> x div 2 ^ 16 mod 256 = 168
     \<or> x div 2 ^ 24 = 169 \<and> x div 2 ^ 16 mod 256 = 254 \<or> x = 0 \<or> x = 4294967295
     \<or> x div 2 ^ 24 = 0 \<or> x div 2 ^ 24 = 100 \<and> x div 2 ^ 16 mod 256 div 64 = 1"
    by (simp add: v4_internal_def v4_is_loopback_def v4_is_private_def v4_is_link_local_def
        v4_is_unspecified_def v4_broadcast_iff octet_0xc0 word_unat_eq_iff word_le_nat_alt
        unat_octet x_def)
  also have "\<dots> \<longleftrightarrow> in_nets a internal_v4_nets"
  proof -
    define h where "h = x div 2 ^ 16"
    have split: "x div 2 ^ 24 = h div 256" "x div 2 ^ 20 = h div 16" "x div 2 ^ 22 = h div 64"
      using split_at [of 16 24 x] split_at [of 16 20 x] split_at [of 16 22 x] by (simp_all add: h_def)
    have r: "16 \<le> m \<and> m \<le> 31 \<longleftrightarrow> m div 16 = 1" for m :: nat by auto
    have "x div 2 ^ 24 = 172 \<and> 16 \<le> h mod 256 \<and> h mod 256 \<le> 31 \<longleftrightarrow> x div 2 ^ 20 = 2753"
      unfolding split r using net_boundary [of 16 16 1 h 172] by simp
    moreover have "x div 2 ^ 24 = 192 \<and> h mod 256 = 168 \<longleftrightarrow> h = 49320"
      unfolding split using net_boundary [of 256 1 168 h 192] by simp
    moreover have "x div 2 ^ 24 = 169 \<and> h mod 256 = 254 \<longleftrightarrow> h = 43518"
      unfolding split using net_boundary [of 256 1 254 h 169] by simp
    moreover have "x div 2 ^ 24 = 100 \<and> h mod 256 div 64 = 1 \<longleftrightarrow> x div 2 ^ 22 = 401"
      unfolding split using net_boundary [of 4 64 1 h 100] by simp
    ultimately show ?thesis
      by (simp add: in_nets_def internal_v4_nets_def unat_in_net h_def flip: x_def) auto
  qed
  finally show ?thesis .
qed

text \<open>An IPv4-mapped address is internal exactly through the mapped networks.\<close>

lemma in_mapped_net:
  assumes "len \<le> 32"
  shows "in_net a (fst (mapped_net (net, len))) (snd (mapped_net (net, len)))
    \<longleftrightarrow> drop_bit 32 a = 0xffff \<and> in_net (ucast a :: u32) net len"
proof -
  define x y n k where "x = unat a" and "y = unat (ucast a :: u32)" and "n = unat net"
    and "k = 32 - len"
  have n: "n < 2 ^ 32" using unsigned_less [of net] by (simp add: n_def)
  have y: "y = x mod 2 ^ 32" by (simp add: y_def x_def unsigned_ucast_eq take_bit_eq_mod)
  have up: "unat (ucast net :: u128) = n"
    using n by (simp add: n_def unsigned_ucast_eq take_bit_nat_eq_self)
  have "unat (push_bit 32 0xffff + ucast net :: u128) = (0xffff * 2 ^ 32 + n) mod 2 ^ 128"
    by (simp add: unat_word_ariths(1) up)
  also have "\<dots> = 0xffff * 2 ^ 32 + n"
    using n by (intro mod_less) simp
  finally have sum: "unat (push_bit 32 0xffff + ucast net :: u128) = 0xffff * 2 ^ 32 + n" .
  have k: "(2::nat) ^ 32 = 2 ^ k * 2 ^ len" using assms by (simp add: k_def flip: power_add)
  have div: "(q * 2 ^ 32 + m) div 2 ^ k = q * 2 ^ len + m div 2 ^ k" for q m :: nat
  proof -
    have "q * 2 ^ 32 + m = m + q * 2 ^ len * 2 ^ k" by (simp only: k ac_simps)
    then show ?thesis by (simp only: div_mult_self1) simp
  qed
  have xy: "x = x div 2 ^ 32 * 2 ^ 32 + y" by (simp add: y)
  have "x div 2 ^ k = (0xffff * 2 ^ 32 + n) div 2 ^ k
      \<longleftrightarrow> x div 2 ^ 32 = 0xffff \<and> y div 2 ^ k = n div 2 ^ k"
  proof
    assume *: "x div 2 ^ k = (0xffff * 2 ^ 32 + n) div 2 ^ k"
    have "x div 2 ^ 32 = x div 2 ^ k div 2 ^ len" by (simp only: k div_mult2_eq)
    also have "\<dots> = (0xffff * 2 ^ 32 + n) div 2 ^ 32" by (simp only: * k div_mult2_eq)
    also have "\<dots> = 0xffff" using n by simp
    finally have q: "x div 2 ^ 32 = 0xffff" .
    with * xy div [of "0xffff" y] div [of "0xffff" n] show "x div 2 ^ 32 = 0xffff \<and> y div 2 ^ k = n div 2 ^ k"
      by (metis add_left_cancel)
  next
    assume "x div 2 ^ 32 = 0xffff \<and> y div 2 ^ k = n div 2 ^ k"
    then show "x div 2 ^ k = (0xffff * 2 ^ 32 + n) div 2 ^ k"
      using xy div [of "0xffff" y] div [of "0xffff" n] by metis
  qed
  moreover have "128 - (96 + len) = k" using assms by (simp add: k_def)
  ultimately show ?thesis
    by (simp add: mapped_net_def unat_in_net word_unat_eq_iff unat_drop_bit sum
        flip: x_def y_def n_def k_def del: push_bit_numeral)
qed

lemma in_nets_append: "in_nets a (xs @ ys) \<longleftrightarrow> in_nets a xs \<or> in_nets a ys"
  by (simp only: in_nets_def set_append bex_Un)

lemma in_mapped_nets:
  "\<forall>(net, len) \<in> set nets. len \<le> 32 \<Longrightarrow>
   in_nets a (map mapped_net nets) \<longleftrightarrow> drop_bit 32 a = 0xffff \<and> in_nets (ucast a :: u32) nets"
proof (induction nets)
  case (Cons p nets)
  obtain net len where p: "p = (net, len)" by (cases p)
  with Cons in_mapped_net [of len a net] show ?case
    by (auto simp: in_nets_def case_prod_beta)
qed (simp add: in_nets_def)

lemma v6_internal_in_nets:
  "is_internal_ip (V6 a) \<longleftrightarrow> in_nets a (internal_v6_nets @ map mapped_net internal_v4_nets)"
proof -
  define x where "x = unat a"
  have x: "x < 2 ^ 128" using unsigned_less [of a] by (simp add: x_def)
  then have "x div 2 ^ 112 < 2 ^ 16" by (simp add: less_mult_imp_div_less)
  then have seg: "unat (segment0 a) = x div 2 ^ 112"
    by (simp add: segment0_def unsigned_ucast_eq unat_drop_bit x_def take_bit_eq_mod)
  have direct: "a = 1 \<or> a = 0 \<or> segment0 a AND 0xfe00 = 0xfc00 \<or> segment0 a AND 0xffc0 = 0xfe80
      \<longleftrightarrow> in_nets a internal_v6_nets"
  proof -
    have "x div 2 ^ 112 div 2 ^ 9 = x div 2 ^ 121" "x div 2 ^ 112 div 2 ^ 6 = x div 2 ^ 118"
      by (simp_all flip: div_mult2_eq)
    then show ?thesis
      unfolding segment_masks seg
      by (simp add: in_nets_def internal_v6_nets_def unat_in_net word_unat_eq_iff flip: x_def) blast
  qed
  have "(case to_ipv4_mapped a of None \<Rightarrow> False | Some v4 \<Rightarrow> v4_internal v4)
      \<longleftrightarrow> drop_bit 32 a = 0xffff \<and> in_nets (ucast a :: u32) internal_v4_nets"
    by (simp add: to_ipv4_mapped_def v4_internal_in_nets)
  also have "\<dots> \<longleftrightarrow> in_nets a (map mapped_net internal_v4_nets)"
    by (rule in_mapped_nets [symmetric]) (simp add: internal_v4_nets_def)
  finally show ?thesis
    using direct by (simp only: is_internal_ip.simps in_nets_append) blast
qed

subsection \<open>The address parser\<close>

text \<open>
  \<open>core::net::parser\<close>: a reader takes the unread text and gives a value with the rest, or \<open>None\<close>
  with the text put back (\<open>read_atomically\<close>). \<open>read_number\<close> reads at most \<open>max_digits\<close> digits and
  fails on one more; an octet of an IPv4 address has no leading zero.
\<close>

definition to_digit :: "nat \<Rightarrow> char \<Rightarrow> nat option" where
  "to_digit radix c =
     (let n = of_char c :: nat;
          d = (if 48 \<le> n \<and> n \<le> 57 then n - 48
               else if 97 \<le> n \<and> n \<le> 122 then n - 87
               else if 65 \<le> n \<and> n \<le> 90 then n - 55
               else radix)
      in if d < radix then Some d else None)"

fun read_digits :: "nat \<Rightarrow> nat \<Rightarrow> nat \<Rightarrow> nat \<Rightarrow> string \<Rightarrow> (nat \<times> nat \<times> string) option" where
  "read_digits radix max_digits count acc [] = Some (count, acc, [])"
| "read_digits radix max_digits count acc (c # cs) =
     (case to_digit radix c of
        None \<Rightarrow> Some (count, acc, c # cs)
      | Some d \<Rightarrow>
          if max_digits < Suc count then None
          else read_digits radix max_digits (Suc count) (acc * radix + d) cs)"

definition read_number :: "nat \<Rightarrow> nat \<Rightarrow> bool \<Rightarrow> nat \<Rightarrow> string \<Rightarrow> (nat \<times> string) option" where
  "read_number radix max_digits allow_zero_prefix limit s =
     (case read_digits radix max_digits 0 0 s of
        None \<Rightarrow> None
      | Some (count, v, rest) \<Rightarrow>
          if count = 0 then None
          else if \<not> allow_zero_prefix \<and> take 1 s = ''0'' \<and> 1 < count then None
          else if v < limit then Some (v, rest)
          else None)"

definition read_separator :: "char \<Rightarrow> nat \<Rightarrow> (string \<Rightarrow> 'a option) \<Rightarrow> string \<Rightarrow> 'a option" where
  "read_separator sep index inner s =
     (if 0 < index then
        (case s of [] \<Rightarrow> None | c # cs \<Rightarrow> if c = sep then inner cs else None)
      else inner s)"

fun read_octets :: "nat \<Rightarrow> nat \<Rightarrow> string \<Rightarrow> (nat list \<times> string) option" where
  "read_octets i 0 s = Some ([], s)"
| "read_octets i (Suc n) s =
     (case read_separator CHR ''.'' i (read_number 10 3 False 256) s of
        None \<Rightarrow> None
      | Some (g, s') \<Rightarrow>
          (case read_octets (Suc i) n s' of
             None \<Rightarrow> None
           | Some (gs, s'') \<Rightarrow> Some (g # gs, s'')))"

definition read_ipv4_addr :: "string \<Rightarrow> (u8 list \<times> string) option" where
  "read_ipv4_addr s = map_option (\<lambda>(gs, rest). (map of_nat gs, rest)) (read_octets 0 4 s)"

definition two_groups :: "u8 list \<Rightarrow> u16 list" where
  "two_groups oct = [from_be_bytes (take 2 oct), from_be_bytes (drop 2 oct)]"

function read_groups :: "nat \<Rightarrow> nat \<Rightarrow> string \<Rightarrow> u16 list \<times> bool \<times> string" where
  "read_groups limit i s =
     (if i < limit then
        (case (if i < limit - 1 then read_separator CHR '':'' i read_ipv4_addr s else None) of
           Some (oct, rest) \<Rightarrow> (two_groups oct, True, rest)
         | None \<Rightarrow>
             (case read_separator CHR '':'' i (read_number 16 4 True 65536) s of
                None \<Rightarrow> ([], False, s)
              | Some (g, rest) \<Rightarrow>
                  (let (gs, v4, s') = read_groups limit (Suc i) rest
                   in (of_nat g # gs, v4, s'))))
      else ([], False, s))"
  by pat_completeness auto
termination by (relation "measure (\<lambda>(limit, i, s). limit - i)") auto

declare read_groups.simps [simp del]

definition segments_addr :: "u16 list \<Rightarrow> u128" where
  "segments_addr gs = from_be_bytes (concat (map (to_be_bytes 2) gs))"

definition read_ipv6_addr :: "string \<Rightarrow> (u128 \<times> string) option" where
  "read_ipv6_addr s =
     (let (hd_groups, hd_ipv4, s1) = read_groups 8 0 s
      in if length hd_groups = 8 then Some (segments_addr hd_groups, s1)
         else if hd_ipv4 then None
         else if take 2 s1 \<noteq> ''::'' then None
         else
           (let (tl_groups, _, s2) = read_groups (8 - (length hd_groups + 1)) 0 (drop 2 s1)
            in Some (segments_addr
                 (hd_groups @ replicate (8 - length hd_groups - length tl_groups) 0 @ tl_groups), s2)))"

definition read_ip_addr :: "string \<Rightarrow> (ip_addr \<times> string) option" where
  "read_ip_addr s =
     (case read_ipv4_addr s of
        Some (oct, rest) \<Rightarrow> Some (V4 (from_be_bytes oct), rest)
      | None \<Rightarrow> map_option (\<lambda>(a, rest). (V6 a, rest)) (read_ipv6_addr s))"

definition parse_ip_addr :: "string \<Rightarrow> ip_addr option" where
  "parse_ip_addr s =
     (case read_ip_addr s of
        Some (ip, rest) \<Rightarrow> if rest = [] then Some ip else None
      | None \<Rightarrow> None)"

text \<open>\<open>Display\<close> of an IPv4 address.\<close>

definition show_ipv4 :: "u32 \<Rightarrow> string" where
  "show_ipv4 a = join ''.'' (map (\<lambda>b. dec (unat b)) (octets (V4 a)))"

lemma to_digit_dec [simp]: "d < 10 \<Longrightarrow> to_digit 10 (digit_char d) = Some d"
  by (auto simp: to_digit_def digit_char_def of_char_of Let_def)

lemma to_digit_dot: "to_digit 10 CHR ''.'' = None"
  by (simp add: to_digit_def)

lemma dec_small:
  "n < 10 \<Longrightarrow> dec n = [digit_char n]"
  "10 \<le> n \<Longrightarrow> n < 100 \<Longrightarrow> dec n = [digit_char (n div 10), digit_char (n mod 10)]"
  "100 \<le> n \<Longrightarrow> n < 1000 \<Longrightarrow>
     dec n = [digit_char (n div 100), digit_char (n div 10 mod 10), digit_char (n mod 10)]"
proof -
  show one: "n < 10 \<Longrightarrow> dec n = [digit_char n]" for n by (simp add: dec.simps)
  show two: "10 \<le> n \<Longrightarrow> n < 100 \<Longrightarrow> dec n = [digit_char (n div 10), digit_char (n mod 10)]" for n
    by (subst dec.simps) (simp add: one)
  show "100 \<le> n \<Longrightarrow> n < 1000 \<Longrightarrow>
     dec n = [digit_char (n div 100), digit_char (n div 10 mod 10), digit_char (n mod 10)]"
    by (subst dec.simps) (simp add: two div_mult2_eq [symmetric])
qed

lemma digit_char_zero: "d < 10 \<Longrightarrow> digit_char d = CHR ''0'' \<longleftrightarrow> d = 0"
proof
  assume "d < 10" "digit_char d = CHR ''0''"
  then have "of_char (digit_char d) = (48 :: nat)" by simp
  with \<open>d < 10\<close> show "d = 0" by (simp add: digit_char_def of_char_of)
next
  assume "d = 0"
  moreover have "digit_char 0 = CHR ''0''" by code_simp
  ultimately show "digit_char d = CHR ''0''" by simp
qed

text \<open>An octet printed in decimal is read back, up to the separator or the end.\<close>

lemma read_number_dec:
  assumes n: "n < 256" and rest: "rest = [] \<or> hd rest = CHR ''.''"
  shows "read_number 10 3 False 256 (dec n @ rest) = Some (n, rest)"
proof -
  have stop: "read_digits 10 3 count acc rest = Some (count, acc, rest)" for count acc
    using rest by (cases rest) (auto simp: to_digit_dot)
  consider "n < 10" | "10 \<le> n" "n < 100" | "100 \<le> n" "n < 1000" using n by linarith
  then show ?thesis
  proof cases
    case 1
    then show ?thesis using n by (simp add: read_number_def dec_small stop)
  next
    case 2
    then show ?thesis using n by (simp add: read_number_def dec_small stop digit_char_zero)
  next
    case 3
    have "n div 100 = n div 10 div 10" by (simp flip: div_mult2_eq)
    then have "(n div 100 * 10 + n div 10 mod 10) * 10 + n mod 10 = n" by simp
    with 3 show ?thesis using n by (simp add: read_number_def dec_small stop digit_char_zero)
  qed
qed

lemma read_octet_sep:
  assumes "b < 256" "rest = [] \<or> hd rest = CHR ''.''"
  shows "read_separator CHR ''.'' 0 (read_number 10 3 False 256) (dec b @ rest) = Some (b, rest)"
    "read_separator CHR ''.'' (Suc i) (read_number 10 3 False 256) (CHR ''.'' # dec b @ rest)
     = Some (b, rest)"
  using read_number_dec [OF assms] by (simp_all add: read_separator_def)

lemma four: "(4::nat) = Suc (Suc (Suc (Suc 0)))"
  by simp

lemma parse_show_ipv4: "parse_ip_addr (show_ipv4 a) = Some (V4 a)"
proof -
  obtain b0 b1 b2 b3 where oct: "to_be_bytes 4 a = [b0, b1, b2, b3]"
  proof -
    have "length (to_be_bytes 4 a) = Suc (Suc (Suc (Suc 0)))" by simp
    then show ?thesis 
      using that by (auto simp: length_Suc_conv simp del: length_to_be_bytes)
  qed
  have bound: "unat b < 256" for b :: u8 using unsigned_less [of b] by simp
  have shown: "show_ipv4 a = dec (unat b0) @ ''.'' @ dec (unat b1) @ ''.'' @ dec (unat b2) @ ''.'' @ dec (unat b3)"
    by (simp add: show_ipv4_def oct)
  have "read_octets 0 4 (show_ipv4 a) = Some (map unat [b0, b1, b2, b3], [])"
    using read_octet_sep(2) [of "unat b3" "[]"] bound
    unfolding shown four by (simp add: read_octet_sep)
  then have "read_ipv4_addr (show_ipv4 a) = Some ([b0, b1, b2, b3], [])"
    by (simp add: read_ipv4_addr_def)
  moreover have "from_be_bytes [b0, b1, b2, b3] = a"
    using from_to_be_bytes [of 4 a] by (simp add: oct)
  ultimately show ?thesis by (simp add: parse_ip_addr_def read_ip_addr_def)
qed

lemma parse_bracketed: "parse_ip_addr (CHR ''['' # s) = None"
proof -
  have num: "read_number radix m z l (CHR ''['' # s) = None" if "radix \<le> 16" for radix m z l
    using that by (simp add: read_number_def to_digit_def)
  have v4: "read_ipv4_addr (CHR ''['' # s) = None"
    by (simp add: read_ipv4_addr_def four read_separator_def num)
  have "read_groups 8 0 (CHR ''['' # s) = ([], False, CHR ''['' # s)"
    by (simp add: read_groups.simps [of 8] read_separator_def v4 num)
  then show ?thesis
    by (simp add: parse_ip_addr_def read_ip_addr_def v4 read_ipv6_addr_def numeral_2_eq_2)
qed

lemma parse_loopback6: "parse_ip_addr ''::1'' = Some (V6 1)"
proof -
  have one: "segments_addr [0, 0, 0, 0, 0, 0, 0, 1] = 1"
    by (simp add: segments_addr_def to_be_bytes_def to_le_bytes_def from_be_bytes_def
        from_le_bytes_def upt_rec numeral_2_eq_2)
  have tl1: "read_groups 7 0 ''1'' = ([1], False, [])"
    by (simp add: read_groups.simps [of 7] read_separator_def read_ipv4_addr_def four
        read_number_def to_digit_def)
  have hd0: "read_groups 8 0 ''::1'' = ([], False, ''::1'')"
    by (simp add: read_groups.simps [of 8] read_separator_def read_ipv4_addr_def four
        read_number_def to_digit_def)
  have v4: "read_ipv4_addr ''::1'' = None"
    by (simp add: read_ipv4_addr_def four read_separator_def read_number_def to_digit_def)
  have "replicate 7 (0 :: u16) @ [1] = [0, 0, 0, 0, 0, 0, 0, 1]"
    by (simp add: numeral_eq_Suc)
  then have "read_ipv6_addr ''::1'' = Some (1, [])"
    by (simp add: read_ipv6_addr_def hd0 tl1 one numeral_2_eq_2)
  then show ?thesis by (simp add: parse_ip_addr_def read_ip_addr_def v4)
qed

subsection \<open>Properties\<close>

text \<open>
  C11: the request guard's address test is a list of networks: an IPv4 address is internal exactly
  when it lies in 0.0.0.0/8, 10.0.0.0/8, 100.64.0.0/10, 127.0.0.0/8, 169.254.0.0/16, 172.16.0.0/12,
  192.168.0.0/16 or is 255.255.255.255, and an IPv6 address exactly when it is \<open>::\<close>, \<open>::1\<close>, in
  fc00::/7 or fe80::/10, or an IPv4-mapped address of one of those networks.
\<close>

theorem internal_networks:
  "(is_internal_ip (V4 a) = in_nets a internal_v4_nets)
   \<and> (is_internal_ip (V6 b) = in_nets b (internal_v6_nets @ map mapped_net internal_v4_nets))"
  using v4_internal_in_nets [of a] v6_internal_in_nets [of b] by simp

text \<open>
  The address parser the guard uses reads the printed form of every IPv4 address back to that
  address, and reads no text that starts with a bracket, the form in which a URL carries the host
  of an IPv6 literal.
\<close>

theorem ip_parser_forms:
  "parse_ip_addr (show_ipv4 a) = Some (V4 a) \<and> parse_ip_addr (CHR ''['' # s) = None"
  by (simp add: parse_show_ipv4 parse_bracketed)

end
