(* ===== verification/Byte_Reader.thy ===== *)
theory Byte_Reader
  imports Prelude
begin

text \<open>
  Byte streams: \<open>std::io::Read\<close>, \<open>BufReader\<close>, and the counting reader, the decompression sniffer
  and the skipper of \<open>bgp-core/src/decode.rs\<close>.

  \<^item> A \<open>read\<close> call asks for at most \<open>n\<close> bytes and returns an I/O error or the bytes delivered;
    an empty answer is the end of the stream. \<open>script\<close> is a stream given by what its successive
    reads will deliver, short reads and errors included.
  \<^item> \<open>'a rprog\<close> is code that only reads: an interaction tree of \<open>read\<close> calls ending in a result.
    It stands for any function generic in \<open>R: Read\<close>, such as the third-party record parser;
    \<open>run\<close> executes it on any reader.
  \<^item> The locale \<open>byte_reader\<close> is the contract of \<open>Read\<close>: at most \<open>n\<close> bytes, taken from the front
    of what remains. Scripts, buffered, counting and boxed readers are instances of it.
\<close>

datatype io_kind = UnexpectedEof | OtherKind string

datatype io_error = IoErr (io_kind: io_kind) (io_msg: string)

type_synonym io_answer = "io_error + u8 list"
type_synonym 'r read_fn = "nat \<Rightarrow> 'r \<Rightarrow> io_answer \<times> 'r"

subsection \<open>Raw streams\<close>

datatype read_event = Chunk "u8 list" | Fail io_error

type_synonym script = "read_event list"

fun script_read :: "script read_fn" where
  "script_read n [] = (Inr [], [])"
| "script_read n (Fail e # s) = (Inl e, s)"
| "script_read n (Chunk bs # s) =
     (Inr (take n bs), if length bs \<le> n then s else Chunk (drop n bs) # s)"

fun event_bytes :: "read_event \<Rightarrow> u8 list" where
  "event_bytes (Chunk bs) = bs"
| "event_bytes (Fail e) = []"

definition script_bytes :: "script \<Rightarrow> u8 list" where
  "script_bytes s = concat (map event_bytes s)"

text \<open>A \<open>Cursor\<close> over bytes in memory, or a file read to its end in one piece.\<close>

definition cursor :: "u8 list \<Rightarrow> script" where
  "cursor bs = (if bs = [] then [] else [Chunk bs])"

lemma script_bytes_simps [simp]:
  "script_bytes [] = []"
  "script_bytes (ev # s) = event_bytes ev @ script_bytes s"
  by (simp_all add: script_bytes_def)

lemma script_bytes_cursor [simp]: "script_bytes (cursor bs) = bs"
  by (simp add: cursor_def)

subsection \<open>Reading programs\<close>

datatype 'a rprog = Ret 'a | Rd nat "io_answer \<Rightarrow> 'a rprog"

primrec run :: "'r read_fn \<Rightarrow> 'a rprog \<Rightarrow> 'r \<Rightarrow> 'a \<times> 'r" where
  "run rd (Ret a) = (\<lambda>r. (a, r))"
| "run rd (Rd n k) = (\<lambda>r. (case rd n r of (ans, r') \<Rightarrow> run rd (k ans) r'))"

text \<open>Every result in \<open>P\<close> comes after at least one byte was delivered.\<close>

primrec must_consume :: "('a \<Rightarrow> bool) \<Rightarrow> 'a rprog \<Rightarrow> bool" where
  "must_consume P (Ret a) \<longleftrightarrow> \<not> P a"
| "must_consume P (Rd n k) \<longleftrightarrow>
     (\<forall>ans. (case ans of Inl e \<Rightarrow> True | Inr bs \<Rightarrow> bs = []) \<longrightarrow> must_consume P (k ans))"

subsection \<open>Wrappers\<close>

text \<open>\<open>CountingReader\<close>.\<close>

record 'r counting_reader =
  inner :: 'r
  count :: u64

definition counting_new :: "'r \<Rightarrow> 'r counting_reader" where
  "counting_new r = \<lparr>inner = r, count = 0\<rparr>"

definition counting_read :: "'r read_fn \<Rightarrow> 'r counting_reader read_fn" where
  "counting_read rd n cr =
     (case rd n (inner cr) of
        (Inl e, r') \<Rightarrow> (Inl e, cr\<lparr>inner := r'\<rparr>)
      | (Inr bs, r') \<Rightarrow> (Inr bs, cr\<lparr>inner := r', count := count cr + of_nat (length bs)\<rparr>))"

definition counted_bytes :: "('r \<Rightarrow> u8 list) \<Rightarrow> 'r counting_reader \<Rightarrow> u8 list" where
  "counted_bytes bytes cr = bytes (inner cr)"

text \<open>\<open>BufReader\<close> with the standard library's capacity of 8192 bytes.\<close>

definition buf_capacity :: nat where "buf_capacity = 8192"

record 'r buf_reader =
  br_buf :: "u8 list"
  br_inner :: 'r

definition buf_new :: "'r \<Rightarrow> 'r buf_reader" where
  "buf_new r = \<lparr>br_buf = [], br_inner = r\<rparr>"

definition buffered_bytes :: "('r \<Rightarrow> u8 list) \<Rightarrow> 'r buf_reader \<Rightarrow> u8 list" where
  "buffered_bytes bytes br = br_buf br @ bytes (br_inner br)"

definition fill_buf :: "'r read_fn \<Rightarrow> 'r buf_reader \<Rightarrow> io_answer \<times> 'r buf_reader" where
  "fill_buf rd br =
     (if br_buf br \<noteq> [] then (Inr (br_buf br), br)
      else case rd buf_capacity (br_inner br) of
             (Inl e, r') \<Rightarrow> (Inl e, br\<lparr>br_inner := r'\<rparr>)
           | (Inr bs, r') \<Rightarrow> (Inr bs, \<lparr>br_buf = bs, br_inner = r'\<rparr>))"

definition buf_read :: "'r read_fn \<Rightarrow> 'r buf_reader read_fn" where
  "buf_read rd n br =
     (if br_buf br = [] \<and> buf_capacity \<le> n then
        (case rd n (br_inner br) of (ans, r') \<Rightarrow> (ans, br\<lparr>br_inner := r'\<rparr>))
      else case fill_buf rd br of
             (Inl e, br') \<Rightarrow> (Inl e, br')
           | (Inr bs, br') \<Rightarrow> (Inr (take n bs), br'\<lparr>br_buf := drop n bs\<rparr>))"

text \<open>
  \<open>Box<dyn Read + Send>\<close> as \<open>decompress_reader\<close> returns it: the buffered raw stream, or the output
  of one of the two third-party decompressors, given by what its reads deliver.
\<close>

datatype dyn_reader = PlainReader "script buf_reader" | DecoderReader script

fun dyn_read :: "dyn_reader read_fn" where
  "dyn_read n (PlainReader br) =
     (case buf_read script_read n br of (ans, br') \<Rightarrow> (ans, PlainReader br'))"
| "dyn_read n (DecoderReader s) =
     (case script_read n s of (ans, s') \<Rightarrow> (ans, DecoderReader s'))"

fun dyn_bytes :: "dyn_reader \<Rightarrow> u8 list" where
  "dyn_bytes (PlainReader br) = buffered_bytes script_bytes br"
| "dyn_bytes (DecoderReader s) = script_bytes s"

subsection \<open>The contract of \<open>Read\<close>\<close>

locale byte_reader =
  fixes rd :: "'r read_fn" and bytes :: "'r \<Rightarrow> u8 list"
  assumes read_ok: "rd n r = (Inr bs, r') \<Longrightarrow> length bs \<le> n \<and> bytes r = bs @ bytes r'"
    and read_err: "rd n r = (Inl e, r') \<Longrightarrow> bytes r' = bytes r"
begin

lemma read_suffix: "rd n r = (ans, r') \<Longrightarrow> \<exists>pre. bytes r = pre @ bytes r'"
  using read_ok [of n r _ r'] read_err [of n r _ r'] by (cases ans) fastforce+

text \<open>A reading program takes a prefix of the stream, whatever it computes.\<close>

lemma run_suffix: "run rd p r = (a, r') \<Longrightarrow> \<exists>pre. bytes r = pre @ bytes r'"
proof (induction p arbitrary: r)
  case (Ret x)
  then show ?case by simp
next
  case (Rd n k)
  obtain ans r1 where 1: "rd n r = (ans, r1)" by fastforce
  with Rd.prems have "run rd (k ans) r1 = (a, r')" by simp
  with Rd.IH obtain pre where "bytes r1 = pre @ bytes r'" by blast
  moreover obtain pre' where "bytes r = pre' @ bytes r1" using read_suffix [OF 1] by blast
  ultimately show ?case by simp
qed

lemma run_length: "run rd p r = (a, r') \<Longrightarrow> length (bytes r') \<le> length (bytes r)"
  using run_suffix by fastforce

lemma run_progress:
  "run rd p r = (a, r') \<Longrightarrow> must_consume P p \<Longrightarrow> P a \<Longrightarrow> length (bytes r') < length (bytes r)"
proof (induction p arbitrary: r)
  case (Ret x)
  then show ?case by simp
next
  case (Rd n k)
  obtain ans r1 where 1: "rd n r = (ans, r1)" by fastforce
  with Rd.prems(1) have rest: "run rd (k ans) r1 = (a, r')" by simp
  show ?case
  proof (cases "case ans of Inl e \<Rightarrow> True | Inr bs \<Rightarrow> bs = []")
    case True
    then have "must_consume P (k ans)" using Rd.prems(2) by simp
    then have "length (bytes r') < length (bytes r1)"
      using Rd.IH rest Rd.prems(3) by blast
    moreover have "length (bytes r1) \<le> length (bytes r)" using read_suffix [OF 1] by auto
    ultimately show ?thesis by simp
  next
    case False
    then obtain bs where "ans = Inr bs" "bs \<noteq> []" by (cases ans) auto
    with 1 have "length (bytes r1) < length (bytes r)" using read_ok [of n r bs r1] by auto
    moreover have "length (bytes r') \<le> length (bytes r1)" using run_length [OF rest] .
    ultimately show ?thesis by simp
  qed
qed

text \<open>Buffering and counting keep the contract; the counter is the number of bytes delivered.\<close>

lemma buffered_is_reader: "byte_reader (buf_read rd) (buffered_bytes bytes)"
  by unfold_locales
    (auto simp: buf_read_def fill_buf_def buffered_bytes_def read_err
      split: prod.splits sum.splits if_splits dest!: read_ok)

lemma counting_is_reader: "byte_reader (counting_read rd) (counted_bytes bytes)"
  by unfold_locales
    (auto simp: counting_read_def counted_bytes_def read_err
      split: prod.splits sum.splits dest!: read_ok)

lemma run_counting:
  "run (counting_read rd) p cr = (a, cr') \<Longrightarrow>
     run rd p (inner cr) = (a, inner cr')
     \<and> count cr' = count cr + of_nat (length (bytes (inner cr)) - length (bytes (inner cr')))"
proof (induction p arbitrary: cr)
  case (Ret x)
  then show ?case by simp
next
  case (Rd n k)
  obtain ans r1 where 1: "rd n (inner cr) = (ans, r1)" by fastforce
  obtain ans' cr1 where 2: "counting_read rd n cr = (ans', cr1)" by fastforce
  have step: "ans' = ans" "inner cr1 = r1"
    "count cr1 = count cr + of_nat (length (bytes (inner cr)) - length (bytes r1))"
    using 1 2 read_ok [of n "inner cr" _ r1] read_err [of n "inner cr" _ r1]
    by (cases ans; auto simp: counting_read_def)+
  have rest: "run (counting_read rd) (k ans) cr1 = (a, cr')"
    using Rd.prems 2 step by simp
  have le: "length (bytes r1) \<le> length (bytes (inner cr))"
    using read_suffix [OF 1] by auto
  from Rd.IH [OF _ rest] have ih: "run rd (k ans) r1 = (a, inner cr')"
    "count cr' = count cr1 + of_nat (length (bytes r1) - length (bytes (inner cr')))"
    using step by auto
  have "length (bytes (inner cr')) \<le> length (bytes r1)" using run_length [OF ih(1)] .
  with le ih step 1 show ?case by (simp flip: of_nat_add)
qed

end

subsection \<open>The readers of the program meet the contract\<close>

interpretation script_reader: byte_reader script_read script_bytes
proof
  show "script_read n r = (Inr bs, r') \<Longrightarrow> length bs \<le> n \<and> script_bytes r = bs @ script_bytes r'"
    for n r bs r' by (cases "(n, r)" rule: script_read.cases) auto
  show "script_read n r = (Inl e, r') \<Longrightarrow> script_bytes r' = script_bytes r"
    for n r e r' by (cases "(n, r)" rule: script_read.cases) auto
qed

interpretation buffered_script: byte_reader "buf_read script_read" "buffered_bytes script_bytes"
  by (rule script_reader.buffered_is_reader)

interpretation dyn: byte_reader dyn_read dyn_bytes
proof
  show "dyn_read n r = (Inr bs, r') \<Longrightarrow> length bs \<le> n \<and> dyn_bytes r = bs @ dyn_bytes r'"
    for n r bs r'
    by (cases r)
      (auto split: prod.splits dest: buffered_script.read_ok script_reader.read_ok)
  show "dyn_read n r = (Inl e, r') \<Longrightarrow> dyn_bytes r' = dyn_bytes r" for n r e r'
    by (cases r)
      (auto split: prod.splits dest: buffered_script.read_err script_reader.read_err)
qed

interpretation counting_dyn: byte_reader "counting_read dyn_read" "counted_bytes dyn_bytes"
  by (rule dyn.counting_is_reader)

interpretation buffered_dyn: byte_reader "buf_read dyn_read" "buffered_bytes dyn_bytes"
  by (rule dyn.buffered_is_reader)

end
