(* ===== verification/Stream_Ops.thy ===== *)
theory Stream_Ops
  imports Byte_Reader
begin

text \<open>
  The stream functions of \<open>bgp-core/src/decode.rs\<close>: \<open>decompress_reader\<close>, which sniffs the first
  buffered bytes and picks a decompressor, and \<open>skip_bytes\<close>, which discards a prefix through a
  scratch buffer of 8192 bytes. The two decompressors (\<open>flate2\<close>, \<open>bzip2_rs\<close>) are third-party code:
  parameters that turn the buffered stream into the stream their reads deliver.
\<close>

type_synonym decompressor = "script buf_reader \<Rightarrow> script"

definition starts_with :: "'a list \<Rightarrow> 'a list \<Rightarrow> bool" where
  "starts_with xs pre \<longleftrightarrow> take (length pre) xs = pre"

definition gzip_magic :: "u8 list" where "gzip_magic = [0x1f, 0x8b]"
definition bzip2_magic :: "u8 list" where "bzip2_magic = [0x42, 0x5a, 0x68]"

definition decompress_reader ::
  "decompressor \<Rightarrow> decompressor \<Rightarrow> script \<Rightarrow> io_error + dyn_reader" where
  "decompress_reader gz bz raw =
     (case fill_buf script_read (buf_new raw) of
        (Inl e, _) \<Rightarrow> Inl e
      | (Inr magic, buf) \<Rightarrow>
          if starts_with magic gzip_magic then Inr (DecoderReader (gz buf))
          else if starts_with magic bzip2_magic then Inr (DecoderReader (bz buf))
          else Inr (PlainReader buf))"

definition short_stream :: io_error where
  "short_stream = IoErr UnexpectedEof ''stream ended before the resume offset''"

function skip_loop :: "'r read_fn \<Rightarrow> nat \<Rightarrow> 'r \<Rightarrow> (io_error + unit) \<times> 'r" where
  "skip_loop rd remaining r =
     (if remaining = 0 then (Inr (), r)
      else case rd (min remaining 8192) r of
             (Inl e, r') \<Rightarrow> (Inl e, r')
           | (Inr bs, r') \<Rightarrow>
               if length bs = 0 then (Inl short_stream, r')
               else skip_loop rd (remaining - length bs) r')"
  by pat_completeness auto
termination
  by (relation "measure (\<lambda>(rd, remaining, r). remaining)") auto

declare skip_loop.simps [simp del]

definition skip_bytes :: "'r read_fn \<Rightarrow> 'r \<Rightarrow> u64 \<Rightarrow> (io_error + unit) \<times> 'r" where
  "skip_bytes rd r n = skip_loop rd (unat n) r"

context byte_reader
begin

lemma skip_loop_ok:
  "skip_loop rd n r = (Inr (), r') \<Longrightarrow> \<exists>pre. length pre = n \<and> bytes r = pre @ bytes r'"
proof (induction n arbitrary: r rule: less_induct)
  case (less n)
  show ?case
  proof (cases "n = 0")
    case True
    with less.prems show ?thesis by (simp add: skip_loop.simps)
  next
    case False
    with less.prems obtain bs r1 where
      1: "rd (min n 8192) r = (Inr bs, r1)" "bs \<noteq> []"
      and rest: "skip_loop rd (n - length bs) r1 = (Inr (), r')"
      by (subst (asm) skip_loop.simps) (auto split: prod.splits sum.splits if_splits)
    have bs: "length bs \<le> n" "bytes r = bs @ bytes r1"
      using read_ok [OF 1(1)] by auto
    with 1(2) False have "n - length bs < n" by simp
    from less.IH [OF this rest] obtain pre where
      "length pre = n - length bs" "bytes r1 = pre @ bytes r'" by blast
    with bs have "length (bs @ pre) = n" "bytes r = (bs @ pre) @ bytes r'" by simp_all
    then show ?thesis by blast
  qed
qed

end

text \<open>A stream that delivers every byte before its end: no failing read, no empty answer.\<close>

fun live_event :: "read_event \<Rightarrow> bool" where
  "live_event (Chunk bs) \<longleftrightarrow> bs \<noteq> []"
| "live_event (Fail e) \<longleftrightarrow> False"

definition live :: "script \<Rightarrow> bool" where
  "live s \<longleftrightarrow> list_all live_event s"

lemma live_read:
  assumes "live s" "script_read n s = (ans, s')" "0 < n"
  shows "live s' \<and> (\<exists>bs. ans = Inr bs \<and> (bs = [] \<longleftrightarrow> script_bytes s = []))"
  using assms by (cases "(n, s)" rule: script_read.cases) (auto simp: live_def)

lemma skip_loop_live:
  "live s \<Longrightarrow> fst (skip_loop script_read n s) =
     (if n \<le> length (script_bytes s) then Inr () else Inl short_stream)"
proof (induction n arbitrary: s rule: less_induct)
  case (less n)
  show ?case
  proof (cases "n = 0")
    case True
    then show ?thesis by (simp add: skip_loop.simps)
  next
    case False
    obtain ans s1 where 1: "script_read (min n 8192) s = (ans, s1)" by fastforce
    with live_read [OF less.prems 1] False obtain bs where
      bs: "ans = Inr bs" "bs = [] \<longleftrightarrow> script_bytes s = []" and live: "live s1"
      by auto
    have len: "length bs \<le> n" "script_bytes s = bs @ script_bytes s1"
      using script_reader.read_ok 1 bs(1) by fastforce+
    show ?thesis
    proof (cases "bs = []")
      case True
      with 1 bs False show ?thesis by (subst skip_loop.simps) simp
    next
      case nonempty: False
      then have "n - length bs < n" using False by simp
      from less.IH [OF this live] have ih: "fst (skip_loop script_read (n - length bs) s1) =
        (if n - length bs \<le> length (script_bytes s1) then Inr () else Inl short_stream)" .
      have "skip_loop script_read n s = skip_loop script_read (n - length bs) s1"
        using 1 bs False nonempty by (subst skip_loop.simps) simp
      with ih len show ?thesis by auto
    qed
  qed
qed

lemma fill_buf_new:
  "fill_buf rd (buf_new raw) =
     (case rd buf_capacity raw of
        (Inl e, r') \<Rightarrow> (Inl e, buf_new r')
      | (Inr bs, r') \<Rightarrow> (Inr bs, \<lparr>br_buf = bs, br_inner = r'\<rparr>))"
  by (simp add: fill_buf_def buf_new_def split: prod.splits sum.splits)

subsection \<open>Properties\<close>

text \<open>
  Counting is transparent: any code that only reads (the record parser in particular) computes
  the same result through a fresh \<open>CountingReader\<close> as on the reader inside it, leaves the inner
  reader in the same state, and the counter then holds exactly the number of stream bytes it took,
  modulo \<open>2 ^ 64\<close>. This is what makes the counter a checkpoint.
\<close>

theorem counting_transparent:
  assumes "byte_reader rd bytes"
    and "run (counting_read rd) p (counting_new r) = (a, cr)"
  shows "run rd p r = (a, inner cr)
    \<and> (\<exists>pre. bytes r = pre @ bytes (inner cr) \<and> count cr = of_nat (length pre))"
proof -
  have 1: "run rd p r = (a, inner cr)"
    "count cr = of_nat (length (bytes r) - length (bytes (inner cr)))"
    using byte_reader.run_counting [OF assms] by (simp_all add: counting_new_def)
  moreover obtain pre where "bytes r = pre @ bytes (inner cr)"
    using byte_reader.run_suffix [OF assms(1) 1(1)] by blast
  ultimately show ?thesis by auto
qed

theorem counting_transparent_witness:
  "\<exists>cr. run (counting_read script_read) (Rd 2 Ret) (counting_new [Chunk [1, 2, 3]]) = (Inr [1, 2], cr)
     \<and> run script_read (Rd 2 Ret) [Chunk [1, 2, 3]] = (Inr [1, 2], inner cr)"
proof -
  obtain ans cr where
    e: "run (counting_read script_read) (Rd 2 Ret) (counting_new [Chunk [1, 2, 3]]) = (ans, cr)"
    by fastforce
  then have "run script_read (Rd 2 Ret) [Chunk [1, 2, 3]] = (ans, inner cr)"
    using counting_transparent [OF script_reader.byte_reader_axioms e] by blast
  moreover from this have "ans = Inr [1, 2]" by simp
  ultimately show ?thesis using e by blast
qed

text \<open>
  Skipping is exact: on a stream without read errors \<open>skip_bytes\<close> succeeds precisely when the
  stream still holds \<open>n\<close> bytes, however the reads chop it up, and otherwise fails with
  \<open>UnexpectedEof\<close>; when it succeeds, on any reader, what is left is the stream without its first
  \<open>n\<close> bytes.
\<close>

theorem skip_bytes_exact:
  assumes "live s"
  shows "fst (skip_bytes script_read s n)
           = (if unat n \<le> length (script_bytes s) then Inr () else Inl short_stream)
    \<and> (unat n \<le> length (script_bytes s) \<longrightarrow>
         script_bytes (snd (skip_bytes script_read s n)) = drop (unat n) (script_bytes s))"
proof -
  have 1: "fst (skip_bytes script_read s n)
      = (if unat n \<le> length (script_bytes s) then Inr () else Inl short_stream)"
    by (simp add: skip_bytes_def skip_loop_live [OF assms])
  moreover have "script_bytes (snd (skip_bytes script_read s n)) = drop (unat n) (script_bytes s)"
    if "unat n \<le> length (script_bytes s)"
  proof -
    have "skip_loop script_read (unat n) s = (Inr (), snd (skip_bytes script_read s n))"
      using 1 that by (simp add: skip_bytes_def prod_eq_iff)
    then show ?thesis using script_reader.skip_loop_ok by fastforce
  qed
  ultimately show ?thesis by blast
qed

theorem skip_bytes_exact_witness:
  "fst (skip_bytes script_read [Chunk [1], Chunk [2, 3]] 2) = Inr ()
   \<and> script_bytes (snd (skip_bytes script_read [Chunk [1], Chunk [2, 3]] 2)) = [3]"
  using skip_bytes_exact [of "[Chunk [1], Chunk [2, 3]]" 2] by (simp add: live_def)

text \<open>
  Sniffing decides by content and consumes nothing: when the first read delivers at least
  three bytes (as a regular file or a byte buffer of that size does), a stream is handed to the
  gzip decoder exactly when it begins with \<open>1f 8b\<close>, to the bzip2 decoder exactly when it begins
  with \<open>BZh\<close>, the decoder then sees the whole stream from its first byte, and any other stream
  is passed through byte for byte.
\<close>

theorem decompress_by_magic:
  assumes "raw = Chunk bs # s" "3 \<le> length bs"
  shows "\<exists>buf. buffered_bytes script_bytes buf = script_bytes raw
    \<and> decompress_reader gz bz raw =
        Inr (if starts_with (script_bytes raw) gzip_magic then DecoderReader (gz buf)
             else if starts_with (script_bytes raw) bzip2_magic then DecoderReader (bz buf)
             else PlainReader buf)"
proof -
  let ?buf = "\<lparr>br_buf = take buf_capacity bs,
    br_inner = if length bs \<le> buf_capacity then s else Chunk (drop buf_capacity bs) # s\<rparr>"
  have pre: "starts_with (take buf_capacity bs) m \<longleftrightarrow> starts_with (script_bytes raw) m"
    if "length m \<le> 3" for m
    using assms that by (simp add: starts_with_def buf_capacity_def min_absorb1)
  have "fill_buf script_read (buf_new raw) = (Inr (take buf_capacity bs), ?buf)"
    by (simp add: assms fill_buf_new)
  moreover have "buffered_bytes script_bytes ?buf = script_bytes raw"
    by (simp add: assms buffered_bytes_def)
  ultimately show ?thesis
    using pre [of gzip_magic] pre [of bzip2_magic]
    by (intro exI [of _ ?buf]) (simp add: decompress_reader_def gzip_magic_def bzip2_magic_def)
qed

theorem decompress_by_magic_witness:
  "\<exists>buf. decompress_reader (\<lambda>_. []) (\<lambda>_. []) (cursor [0x4d, 0x52, 0x54]) = Inr (PlainReader buf)
     \<and> buffered_bytes script_bytes buf = [0x4d, 0x52, 0x54]"
proof -
  have "cursor [0x4d, 0x52, 0x54] = Chunk [0x4d, 0x52, 0x54] # []" by (simp add: cursor_def)
  from decompress_by_magic [OF this, of "\<lambda>_. []" "\<lambda>_. []"] show ?thesis
    by (auto simp: starts_with_def gzip_magic_def bzip2_magic_def)
qed

end
