(* ===== verification/Cloud.thy ===== *)
theory Cloud
  imports Net_Guard Stream_Ops "HOL-Library.Multiset" "HOL-Library.List_Lexorder"
    "HOL-Library.Char_ord"
begin

text \<open>
  \<open>bgp-worker/src/cloud.rs\<close>: paths are classified, \<open>s3\<close> secrets become object-store options, HTTP
  hosts pass the request guard, and objects are fetched and listed.

  \<^item> \<open>url\<close> holds what the code reads of a \<open>url::Url\<close>. \<open>'s world\<close> bundles the third-party
    functions (\<open>url\<close>, \<open>percent_encoding\<close>, \<open>glob\<close>, \<open>object_store\<close> with \<open>'s\<close> its store handles, the
    two decompressors) and the operating system (environment, name resolution, files) as
    parameters; a failing one returns the text of its error.
  \<^item> \<open>secrets\<close> is the SDK's resolved secret set, a lookup by scope and type.
  The lemmas show what a classified path can be, which secrets are requested, that no store is built
  for a guarded HTTP host on an internal network, and what a glob listing returns.
\<close>

record url =
  url_text :: string
  url_scheme :: string
  url_host :: "string option"
  url_path :: string

record 's world =
  url_parse :: "string \<Rightarrow> string + url"
  percent_encode :: "(char \<Rightarrow> bool) \<Rightarrow> string \<Rightarrow> string"
  percent_decode :: "string \<Rightarrow> string"
  glob_new :: "string \<Rightarrow> string option"
  glob_match_with :: "bool \<Rightarrow> string \<Rightarrow> string \<Rightarrow> bool"
  obj_path_from :: "string \<Rightarrow> string"
  parse_url_opts :: "url \<Rightarrow> (string \<times> string) list \<Rightarrow> string + 's \<times> string"
  store_get :: "'s \<Rightarrow> string \<Rightarrow> string + u8 list"
  store_list :: "'s \<Rightarrow> string option \<Rightarrow> string + string list"
  env_var :: "string \<Rightarrow> string option"
  lookup_host :: "string \<Rightarrow> ip_addr list option"
  file_exists :: "string \<Rightarrow> bool"
  file_open :: "string \<Rightarrow> string + script"
  glob_paths :: "string \<Rightarrow> string + (string + string) list"
  gz_decoder :: decompressor
  bz_decoder :: decompressor

type_synonym secret_fields = "string \<rightharpoonup> string"
type_synonym secrets = "string \<Rightarrow> string \<Rightarrow> secret_fields option"
type_synonym overrides = "(string \<times> string) list"

definition quoted :: "string \<Rightarrow> string" where
  "quoted s = CHR 0x27 # s @ [CHR 0x27]"

subsection \<open>Classification\<close>

text \<open>\<open>CONTROLS.add(b'%').add(b'?').add(b'#')\<close>; bytes outside ASCII are always encoded.\<close>

definition S3_KEY_ESCAPE :: "char \<Rightarrow> bool" where
  "S3_KEY_ESCAPE c \<longleftrightarrow>
     (let n = (of_char c :: nat) in n < 32 \<or> n = 127) \<or> c = CHR ''%'' \<or> c = CHR ''?'' \<or> c = CHR ''#''"

datatype location = Local string | Remote url

definition REMOTE_SCHEMES :: "string list" where
  "REMOTE_SCHEMES = [''s3'', ''s3a'', ''http'', ''https'']"

definition encode_s3_url :: "'s world \<Rightarrow> string \<Rightarrow> string \<Rightarrow> string" where
  "encode_s3_url w scheme rest =
     (let (bucket, key) = (case split_once ''/'' rest of Some bk \<Rightarrow> bk | None \<Rightarrow> (rest, []));
          key_enc = percent_encode w S3_KEY_ESCAPE key
      in scheme @ ''://'' @ bucket @ ''/'' @ key_enc)"

definition scheme_like :: "string \<Rightarrow> bool" where
  "scheme_like lower \<longleftrightarrow>
     lower \<noteq> [] \<and> list_all (\<lambda>c. is_alnum c \<or> c = CHR ''+'' \<or> c = CHR ''-'' \<or> c = CHR ''.'') lower"

definition bad_url :: "string \<Rightarrow> string \<Rightarrow> rpc_error" where
  "bad_url path e = ValueError (''bad URL '' @ quoted path @ '': '' @ e)"

definition unsupported_scheme :: "string \<Rightarrow> string \<Rightarrow> rpc_error" where
  "unsupported_scheme lower path =
     ValueError (''unsupported URL scheme '' @ quoted (lower @ ''://'') @ '' for '' @ quoted path
       @ '' (supported: s3://, http://, https://; local paths have no scheme)'')"

definition classify :: "'s world \<Rightarrow> string \<Rightarrow> location rpc_result" where
  "classify w path =
     (case split_once ''://'' path of
        None \<Rightarrow> Inr (Local path)
      | Some (scheme, rest) \<Rightarrow>
          (let lower = ascii_lower scheme in
           if lower = ''s3'' \<or> lower = ''s3a'' then
             try_then (map_err (bad_url path) (url_parse w (encode_s3_url w lower rest)))
               (\<lambda>u. Inr (Remote u))
           else if lower = ''http'' \<or> lower = ''https'' then
             try_then (map_err (bad_url path) (url_parse w path)) (\<lambda>u. Inr (Remote u))
           else if scheme_like lower then Inl (unsupported_scheme lower path)
           else Inr (Local path)))"

definition remote_key :: "'s world \<Rightarrow> url \<Rightarrow> string" where
  "remote_key w u =
     percent_decode w (case url_path u of
        c # p \<Rightarrow> if c = CHR ''/'' then p else url_path u
      | [] \<Rightarrow> url_path u)"

definition is_remote :: "string \<Rightarrow> bool" where
  "is_remote path \<longleftrightarrow>
     (case split_once ''://'' path of
        None \<Rightarrow> False
      | Some (s, _) \<Rightarrow> ascii_lower s \<in> set REMOTE_SCHEMES)"

subsection \<open>Secrets\<close>

record secret_request =
  secret_type :: string
  scope :: "string option"
  secret_name :: "string option"

definition secret_type_for :: "url \<Rightarrow> string option" where
  "secret_type_for u = (if url_scheme u = ''s3'' \<or> url_scheme u = ''s3a'' then Some ''s3'' else None)"

definition secret_lookup :: "'s world \<Rightarrow> string \<Rightarrow> secret_request option" where
  "secret_lookup w path =
     (case classify w path of
        Inr (Remote u) \<Rightarrow>
          map_option (\<lambda>t. \<lparr>secret_type = t, scope = Some (url_text u), secret_name = None\<rparr>)
            (secret_type_for u)
      | _ \<Rightarrow> None)"

definition same_secret :: "secret_request \<Rightarrow> secret_request \<Rightarrow> bool" where
  "same_secret e l \<longleftrightarrow> secret_type e = secret_type l \<and> scope e = scope l"

fun push_lookups :: "'s world \<Rightarrow> secret_request list \<Rightarrow> string list \<Rightarrow> secret_request list" where
  "push_lookups w out [] = out"
| "push_lookups w out (p # ps) =
     (case secret_lookup w p of
        None \<Rightarrow> push_lookups w out ps
      | Some l \<Rightarrow>
          push_lookups w (if list_ex (\<lambda>e. same_secret e l) out then out else out @ [l]) ps)"

definition secret_lookups :: "'s world \<Rightarrow> string list \<Rightarrow> secret_request list" where
  "secret_lookups w paths = push_lookups w [] paths"

subsection \<open>The request guard\<close>

definition internal_host :: "string \<Rightarrow> rpc_error" where
  "internal_host host =
     ValueError (''refusing to read from internal host '' @ quoted host
       @ '' (loopback / link-local / private / cloud-metadata); set BGP_ALLOW_INTERNAL_HOSTS=1 to override'')"

definition guard_host :: "'s world \<Rightarrow> string \<Rightarrow> unit rpc_result" where
  "guard_host w host =
     (if env_var w ''BGP_ALLOW_INTERNAL_HOSTS'' \<noteq> None then Inr ()
      else
        (let internal =
           (case parse_ip_addr host of
              Some ip \<Rightarrow> is_internal_ip ip
            | None \<Rightarrow>
                (case lookup_host w host of
                   Some addrs \<Rightarrow> list_ex is_internal_ip addrs
                 | None \<Rightarrow> False))
         in if internal then Inl (internal_host host) else Inr ()))"

subsection \<open>Stores\<close>

definition parse_bool :: "string \<Rightarrow> bool option" where
  "parse_bool s =
     (let v = ascii_lower (trim s) in
      if v \<in> {''true'', ''1'', ''yes'', ''on''} then Some True
      else if v \<in> {''false'', ''0'', ''no'', ''off''} then Some False
      else None)"

definition normalize_endpoint :: "string \<Rightarrow> bool option \<Rightarrow> string" where
  "normalize_endpoint ep use_ssl =
     (if contains ''://'' ep then ep
      else (if use_ssl = Some False then ''http'' else ''https'') @ ''://'' @ ep)"

definition nonempty_field :: "secret_fields \<Rightarrow> string \<Rightarrow> string option" where
  "nonempty_field flds f = (case flds f of Some v \<Rightarrow> if v = [] then None else Some v | None \<Rightarrow> None)"

definition opt_push :: "string \<Rightarrow> string option \<Rightarrow> (string \<times> string) list" where
  "opt_push k v = (case v of None \<Rightarrow> [] | Some x \<Rightarrow> [(k, x)])"

definition s3_options :: "secrets \<Rightarrow> url \<Rightarrow> (string \<times> string) list" where
  "s3_options secrets u =
     (case secrets (url_text u) ''s3'' of
        None \<Rightarrow> []
      | Some flds \<Rightarrow>
          (let use_ssl = Option.bind (flds ''use_ssl'') parse_bool
           in opt_push ''aws_access_key_id'' (nonempty_field flds ''key_id'')
            @ opt_push ''aws_secret_access_key'' (nonempty_field flds ''secret'')
            @ opt_push ''aws_session_token'' (nonempty_field flds ''session_token'')
            @ opt_push ''aws_region'' (nonempty_field flds ''region'')
            @ opt_push ''aws_endpoint''
                (map_option (\<lambda>v. normalize_endpoint v use_ssl) (nonempty_field flds ''endpoint''))
            @ (case nonempty_field flds ''url_style'' of
                 None \<Rightarrow> []
               | Some v \<Rightarrow>
                   if eq_ignore_ascii_case v ''path''
                   then [(''aws_virtual_hosted_style_request'', ''false'')] else [])
            @ (if use_ssl = Some False then [(''aws_allow_http'', ''true'')] else [])))"

definition is_http :: "url \<Rightarrow> bool" where
  "is_http u \<longleftrightarrow> url_scheme u = ''http'' \<or> url_scheme u = ''https''"

definition build_store :: "'s world \<Rightarrow> url \<Rightarrow> secrets \<Rightarrow> overrides \<Rightarrow> ('s \<times> string) rpc_result" where
  "build_store w u secrets overrides =
     try_then
       (if is_http u then (case url_host u of Some host \<Rightarrow> guard_host w host | None \<Rightarrow> Inr ())
        else Inr ())
       (\<lambda>_.
          let opts = (if secret_type_for u = Some ''s3'' then s3_options secrets u else []) @ overrides
          in map_err (\<lambda>e. ValueError (''init store for '' @ quoted (url_text u) @ '': '' @ e))
               (parse_url_opts w u opts))"

definition fetch_object :: "'s world \<Rightarrow> 's \<Rightarrow> string \<Rightarrow> url \<Rightarrow> u8 list rpc_result" where
  "fetch_object w store path u =
     map_err (\<lambda>e. ValueError (''read '' @ url_text u @ '': '' @ e)) (store_get w store path)"

subsection \<open>Globs\<close>

definition glob_chars :: "char list" where "glob_chars = ''*?[''"

definition glob_matches :: "'s world \<Rightarrow> string \<Rightarrow> string \<Rightarrow> bool" where
  "glob_matches w pattern key = glob_match_with w True pattern key"

definition glob_prefix :: "string \<Rightarrow> string" where
  "glob_prefix key =
     (case find_any glob_chars key of
        Some i \<Rightarrow>
          (case rfind CHR ''/'' (take i key) of
             Some slash \<Rightarrow> take (Suc slash) key
           | None \<Rightarrow> [])
      | None \<Rightarrow> key)"

fun collect_results :: "('e + 'a) list \<Rightarrow> 'e + 'a list" where
  "collect_results [] = Inr []"
| "collect_results (r # rs) = try_then r (\<lambda>x. try_then (collect_results rs) (\<lambda>xs. Inr (x # xs)))"

definition list_glob :: "'s world \<Rightarrow> url \<Rightarrow> secrets \<Rightarrow> overrides \<Rightarrow> url list rpc_result" where
  "list_glob w u secrets overrides =
     (if is_http u then Inr [u]
      else
        (let key = remote_key w u in
         case glob_new w key of
           Some e \<Rightarrow> Inl (ValueError (''bad glob '' @ quoted (url_text u) @ '': '' @ e))
         | None \<Rightarrow>
             (let prefix = glob_prefix key in
              try_then (build_store w u secrets overrides) (\<lambda>(store, _).
                let bucket = (case url_host u of Some h \<Rightarrow> h | None \<Rightarrow> []);
                    prefix_path = (if prefix = [] then None else Some (obj_path_from w prefix))
                in try_then
                     (map_err (\<lambda>e. ValueError (''list '' @ url_text u @ '': '' @ e))
                       (store_list w store prefix_path))
                     (\<lambda>metas.
                        let literals = filter (glob_matches w key) (map (percent_decode w) metas)
                        in try_then
                             (map_err
                               (\<lambda>e. ValueError (''rebuild s3 url under '' @ quoted (url_text u) @ '': '' @ e))
                               (collect_results
                                 (map (\<lambda>literal. url_parse w
                                    (encode_s3_url w (url_scheme u) (bucket @ ''/'' @ literal))) literals)))
                             (\<lambda>urls. Inr (sort_key url_text urls)))))))"

subsection \<open>Lemmas\<close>

lemma classify_local: "classify w p = Inr (Local q) \<Longrightarrow> q = p \<and> \<not> is_remote p"
  by (auto simp: classify_def is_remote_def REMOTE_SCHEMES_def Let_def try_then_Inr_iff
      split: option.splits if_splits)

lemma classify_remote: "classify w p = Inr (Remote u) \<Longrightarrow> is_remote p"
  by (auto simp: classify_def is_remote_def REMOTE_SCHEMES_def Let_def
      split: option.splits if_splits)

lemma classify_error: "classify w p = Inl e \<Longrightarrow> \<exists>msg. e = ValueError msg"
  by (auto simp: classify_def Let_def try_then_Inl_iff map_err_Inl_iff bad_url_def
      unsupported_scheme_def split: option.splits if_splits)

lemma secret_lookup_s3:
  "secret_lookup w p = Some l \<Longrightarrow> secret_type l = ''s3'' \<and> secret_name l = None \<and> scope l \<noteq> None"
  by (auto simp: secret_lookup_def secret_type_for_def split: sum.splits location.splits if_splits)

lemma secret_request_eq:
  "same_secret e l \<longleftrightarrow> secret_type e = secret_type l \<and> scope e = scope l"
  by (simp add: same_secret_def)

lemma push_lookups_invariant:
  assumes "sorted_wrt (\<lambda>a b. \<not> same_secret a b) out"
  shows "sorted_wrt (\<lambda>a b. \<not> same_secret a b) (push_lookups w out ps)
    \<and> (\<exists>more. push_lookups w out ps = out @ more \<and> set more \<subseteq> set (List.map_filter (secret_lookup w) ps))
    \<and> (\<forall>l \<in> set (List.map_filter (secret_lookup w) ps). \<exists>e \<in> set (push_lookups w out ps). same_secret e l)"
  using assms
proof (induction ps arbitrary: out)
  case Nil
  then show ?case by (simp add: map_filter_simps)
next
  case (Cons p ps)
  show ?case
  proof (cases "secret_lookup w p")
    case None
    with Cons show ?thesis by (simp add: map_filter_simps)
  next
    case (Some l)
    define out' where "out' = (if list_ex (\<lambda>e. same_secret e l) out then out else out @ [l])"
    have "sorted_wrt (\<lambda>a b. \<not> same_secret a b) out'"
      using Cons.prems by (auto simp: out'_def sorted_wrt_append list_ex_iff)
    from Cons.IH [OF this] obtain more where ih:
      "sorted_wrt (\<lambda>a b. \<not> same_secret a b) (push_lookups w out' ps)"
      "push_lookups w out' ps = out' @ more"
      "set more \<subseteq> set (List.map_filter (secret_lookup w) ps)"
      "\<forall>l \<in> set (List.map_filter (secret_lookup w) ps). \<exists>e \<in> set (push_lookups w out' ps). same_secret e l"
      by blast
    have "\<exists>e \<in> set out'. same_secret e l"
      by (auto simp: out'_def list_ex_iff same_secret_def)
    then have "\<exists>e \<in> set (push_lookups w out' ps). same_secret e l" using ih(2) by auto
    moreover have "push_lookups w out (p # ps) = push_lookups w out' ps"
      using Some by (simp add: out'_def)
    moreover have "\<exists>more'. out' @ more = out @ more'
        \<and> set more' \<subseteq> insert l (set (List.map_filter (secret_lookup w) ps))"
      using ih(3) by (auto simp: out'_def)
    ultimately show ?thesis using Some ih by (simp add: map_filter_simps)
  qed
qed

lemma guard_host_ok:
  "guard_host w h = Inr () \<longleftrightarrow>
     env_var w ''BGP_ALLOW_INTERNAL_HOSTS'' \<noteq> None
     \<or> (case parse_ip_addr h of
          Some ip \<Rightarrow> \<not> is_internal_ip ip
        | None \<Rightarrow> (case lookup_host w h of None \<Rightarrow> True | Some addrs \<Rightarrow> \<forall>ip \<in> set addrs. \<not> is_internal_ip ip))"
  by (auto simp: guard_host_def Let_def list_ex_iff split: option.splits)

lemma build_store_guarded:
  "build_store w u sec ov = Inr r \<Longrightarrow> is_http u \<Longrightarrow> url_host u = Some h \<Longrightarrow> guard_host w h = Inr ()"
  by (auto simp: build_store_def try_then_Inr_iff)

lemma collect_results_Inr: "collect_results rs = Inr xs \<longleftrightarrow> rs = map Inr xs"
  by (induction rs arbitrary: xs) (auto simp: try_then_Inr_iff Cons_eq_map_conv)

lemma take_prefix: "\<exists>rest. key = take n key @ rest"
  by (metis append_take_drop_id)

lemma glob_prefix_shape:
  assumes "contains_any glob_chars key"
  obtains seg c rest where "key = glob_prefix key @ seg @ c # rest" "c \<in> set glob_chars"
    "CHR ''/'' \<notin> set seg" "\<not> contains_any glob_chars (glob_prefix key @ seg)"
    "glob_prefix key = [] \<or> last (glob_prefix key) = CHR ''/''"
proof -
  obtain i where i: "find_any glob_chars key = Some i"
    using assms find_any_None by (metis not_None_eq)
  note first = i [unfolded find_any_Some]
  have clean: "\<not> contains_any glob_chars (take i key)"
    using first by (fastforce simp: contains_any_def in_set_conv_nth [where xs = "take i key"])
  have key: "key = take i key @ key ! i # drop (Suc i) key"
    using first id_take_nth_drop by blast
  show thesis
  proof (cases "rfind CHR ''/'' (take i key)")
    case None
    then have "glob_prefix key = []" "CHR ''/'' \<notin> set (take i key)"
      using i by (simp_all add: glob_prefix_def flip: rfind_None)
    then show thesis
      using that [of "take i key" "key ! i" "drop (Suc i) key"] first clean key by simp
  next
    case (Some s)
    then have s: "s < i" "key ! s = CHR ''/''" "CHR ''/'' \<notin> set (drop (Suc s) (take i key))"
      using rfind_Some [OF Some] first by auto
    have pre: "glob_prefix key = take (Suc s) key" using i Some by (simp add: glob_prefix_def)
    have split: "take i key = take (Suc s) key @ drop (Suc s) (take i key)"
      using s(1) first by (metis append_take_drop_id min.absorb1 Suc_leI take_take)
    have "last (take (Suc s) key) = CHR ''/''"
      using s first by (simp add: take_Suc_conv_app_nth)
    then show thesis
      using that [of "drop (Suc s) (take i key)" "key ! i" "drop (Suc i) key"] first clean key s split
      by (metis pre append.assoc)
  qed
qed

lemma fst_opt_push: "map fst (opt_push k v) = filter (\<lambda>_. v \<noteq> None) [k]"
  by (simp add: opt_push_def split: option.split)

lemma s3_options_keys: "distinct (map fst (s3_options sec u))"
proof (cases "sec (url_text u) ''s3''")
  case (Some flds)
  have style: "map fst (case x of None \<Rightarrow> [] | Some v \<Rightarrow> if P v then [(k, d)] else [])
      = filter (\<lambda>_. \<exists>v. x = Some v \<and> P v) [k]"
    "map fst (if Q then [(k, d)] else []) = filter (\<lambda>_. Q) [k]" for x P k d Q
    by (auto split: option.split)
  have disj: "set (filter (\<lambda>_. b) [k]) = {x. x = k \<and> b}" for b and k :: string by auto
  show ?thesis
    unfolding s3_options_def Some option.case Let_def map_append fst_opt_push style distinct_append disj set_append
    by (intro conjI) auto
qed (simp add: s3_options_def)

lemma contains_normalized: "contains ''://'' (normalize_endpoint ep ssl)"
proof (cases "contains ''://'' ep")
  case True
  then show ?thesis by (simp add: normalize_endpoint_def)
next
  case False
  have "contains ''://'' (sch @ ''://'' @ ep)" for sch
    unfolding contains_iff by blast
  with False show ?thesis by (simp only: normalize_endpoint_def if_False)
qed

lemma normalized_not_Nil: "normalize_endpoint ep ssl \<noteq> []"
  using contains_normalized [of ep ssl] by (auto simp: contains_iff)

lemma nonempty_field_value: "nonempty_field flds f = Some v \<Longrightarrow> v \<noteq> []"
  by (auto simp: nonempty_field_def split: option.splits if_splits)

lemma opt_push_mem: "(k, v) \<in> set (opt_push n x) \<longleftrightarrow> k = n \<and> x = Some v"
  by (auto simp: opt_push_def split: option.splits)

lemma s3_options_values: "(k, v) \<in> set (s3_options sec u) \<Longrightarrow> v \<noteq> []"
  unfolding s3_options_def Let_def
  by (auto simp: normalized_not_Nil opt_push_mem dest: nonempty_field_value
      split: option.splits if_splits)

subsection \<open>A sample world\<close>

text \<open>
  A concrete instance of the parameters, on which the properties below are exercised: URLs are split
  at their punctuation, globs match by their literal prefix, and every bucket holds three objects.
\<close>

definition sample_url_parse :: "string \<Rightarrow> string + url" where
  "sample_url_parse s =
     (case split_once ''://'' s of
        None \<Rightarrow> Inl ''relative URL without a base''
      | Some (sch, rest) \<Rightarrow>
          (case split_once ''/'' rest of
             None \<Rightarrow> Inr \<lparr>url_text = s, url_scheme = ascii_lower sch, url_host = Some rest, url_path = ''/''\<rparr>
           | Some (h, p) \<Rightarrow>
               Inr \<lparr>url_text = s, url_scheme = ascii_lower sch, url_host = Some h, url_path = CHR ''/'' # p\<rparr>))"

definition sample_world :: "unit world" where
  "sample_world =
     \<lparr>url_parse = sample_url_parse, percent_encode = (\<lambda>_ s. s), percent_decode = (\<lambda>s. s),
      glob_new = (\<lambda>_. None),
      glob_match_with = (\<lambda>_ pat key.
        let lit = takeWhile (\<lambda>c. c \<notin> set glob_chars) pat in take (length lit) key = lit),
      obj_path_from = (\<lambda>s. s), parse_url_opts = (\<lambda>u _. Inr ((), url_path u)),
      store_get = (\<lambda>_ _. Inr []), store_list = (\<lambda>_ _. Inr [''d/b.mrt'', ''x'', ''d/a.mrt'']),
      env_var = (\<lambda>_. None), lookup_host = (\<lambda>_. None), file_exists = (\<lambda>_. True),
      file_open = (\<lambda>_. Inr []), glob_paths = (\<lambda>_. Inr []),
      gz_decoder = (\<lambda>_. []), bz_decoder = (\<lambda>_. [])\<rparr>"

definition no_secrets :: secrets where "no_secrets = (\<lambda>_ _. None)"

subsection \<open>Properties\<close>

text \<open>
  A path is read from the network only when it says so: \<open>classify\<close> gives a remote location
  exactly for paths with one of the four remote schemes whose URL parses, a local one unchanged and
  only for paths without such a scheme, and every rejection is a value error that names the path's
  problem; the quick check \<open>is_remote\<close> never disagrees with it.
\<close>

theorem classify_sound:
  "case classify w p of
     Inl e \<Rightarrow> (\<exists>msg. e = ValueError msg)
   | Inr (Local q) \<Rightarrow> q = p \<and> \<not> is_remote p
   | Inr (Remote u) \<Rightarrow> is_remote p"
  by (auto split: sum.split location.split dest: classify_local classify_remote classify_error)

text \<open>
  The secrets requested for a set of paths are the right ones, once each: no two requests share
  type and scope, every request is the request of one of the paths and asks for an \<open>s3\<close> secret with a
  scope, and every path that needs a secret is covered by a request of its type and scope.
\<close>

theorem secret_lookups_exact:
  "sorted_wrt (\<lambda>a b. \<not> same_secret a b) (secret_lookups w paths)
   \<and> list_all (\<lambda>l. secret_type l = ''s3'' \<and> scope l \<noteq> None) (secret_lookups w paths)
   \<and> set (secret_lookups w paths) \<subseteq> set (List.map_filter (secret_lookup w) paths)
   \<and> list_all (\<lambda>l. list_ex (\<lambda>e. same_secret e l) (secret_lookups w paths))
       (List.map_filter (secret_lookup w) paths)"
proof -
  have inv: "sorted_wrt (\<lambda>a b. \<not> same_secret a b) (secret_lookups w paths)"
    "set (secret_lookups w paths) \<subseteq> set (List.map_filter (secret_lookup w) paths)"
    "\<forall>l \<in> set (List.map_filter (secret_lookup w) paths). \<exists>e \<in> set (secret_lookups w paths). same_secret e l"
    using push_lookups_invariant [of "[]" w paths] by (auto simp: secret_lookups_def)
  moreover have "list_all (\<lambda>l. secret_type l = ''s3'' \<and> scope l \<noteq> None) (secret_lookups w paths)"
    using inv(2) by (auto simp: list_all_iff dest!: subsetD in_map_filter dest: secret_lookup_s3)
  ultimately show ?thesis by (simp add: list_all_iff list_ex_iff)
qed

text \<open>
  C31: no store is built for an HTTP host the guard can see to be internal: when \<open>build_store\<close>
  succeeds for an \<open>http(s)\<close> URL and the override variable is unset, the host is neither the text of
  an internal address nor a name that resolves to one, whatever else it resolves to.
\<close>

theorem guard_blocks_internal:
  assumes "build_store w u sec ov = Inr r" and "is_http u" and "url_host u = Some h"
    and "env_var w ''BGP_ALLOW_INTERNAL_HOSTS'' = None"
    and "parse_ip_addr h = Some ip
         \<or> parse_ip_addr h = None \<and> (case lookup_host w h of None \<Rightarrow> False | Some addrs \<Rightarrow> ip \<in> set addrs)"
  shows "\<not> is_internal_ip ip"
  using build_store_guarded [OF assms(1-3)] assms(4,5)
  by (auto simp: guard_host_ok split: option.splits)

theorem guard_blocks_internal_witness:
  "\<not> is_internal_ip (V4 0x08080808)"
proof (rule guard_blocks_internal)
  let ?u = "\<lparr>url_text = ''http://8.8.8.8/x'', url_scheme = ''http'', url_host = Some (show_ipv4 0x08080808),
    url_path = ''/x''\<rparr>"
  have pub: "\<not> v4_internal 0x08080808"
    by (simp add: v4_internal_in_nets in_nets_def internal_v4_nets_def unat_in_net)
  show "build_store sample_world ?u no_secrets [] = Inr ((), ''/x'')"
    by (simp add: build_store_def guard_host_def sample_world_def is_http_def secret_type_for_def
        parse_show_ipv4 pub)
  show "is_http ?u" by (simp add: is_http_def)
  show "url_host ?u = Some (show_ipv4 0x08080808)" by simp
  show "env_var sample_world ''BGP_ALLOW_INTERNAL_HOSTS'' = None" by (simp add: sample_world_def)
qed (simp add: parse_show_ipv4)

text \<open>
  C32: the guard does not see an IPv6 literal: a URL's host text carries one in brackets, which is no
  address to the parser, so for every world whose resolver does not know the bracketed text the
  guard admits it, although the address inside the brackets is internal (shown for \<open>::1\<close>).
\<close>

theorem guard_misses_ipv6_literal:
  assumes "lookup_host w (CHR ''['' # lit @ '']'') = None"
  shows "guard_host w (CHR ''['' # lit @ '']'') = Inr ()
    \<and> parse_ip_addr ''::1'' = Some (V6 1) \<and> is_internal_ip (V6 1)"
proof -
  have "guard_host w (CHR ''['' # lit @ '']'') = Inr ()"
    using assms by (simp add: guard_host_def parse_bracketed)
  then show ?thesis by (simp add: parse_loopback6)
qed

theorem guard_misses_ipv6_literal_witness:
  "guard_host sample_world ''[::1]'' = Inr () \<and> is_internal_ip (V6 1)"
  using guard_misses_ipv6_literal [of sample_world "''::1''"] by (simp add: sample_world_def)

text \<open>
  The options an \<open>s3\<close> secret grants, as a relation between its fields and an option: four fields are
  passed on under their name in \<open>object_store\<close>, the endpoint gets a scheme if it has none, and path style
  and plain \<open>http\<close> are switched on by their fields. An empty field grants nothing.
\<close>

definition no_ssl :: "secret_fields \<Rightarrow> bool" where
  "no_ssl flds \<longleftrightarrow> (\<exists>v. flds ''use_ssl'' = Some v \<and> parse_bool v = Some False)"

definition s3_grants :: "secret_fields \<Rightarrow> string \<Rightarrow> string \<Rightarrow> bool" where
  "s3_grants flds k v \<longleftrightarrow>
     k = ''aws_access_key_id'' \<and> flds ''key_id'' = Some v \<and> v \<noteq> []
     \<or> k = ''aws_secret_access_key'' \<and> flds ''secret'' = Some v \<and> v \<noteq> []
     \<or> k = ''aws_session_token'' \<and> flds ''session_token'' = Some v \<and> v \<noteq> []
     \<or> k = ''aws_region'' \<and> flds ''region'' = Some v \<and> v \<noteq> []
     \<or> k = ''aws_endpoint'' \<and> (\<exists>ep. flds ''endpoint'' = Some ep \<and> ep \<noteq> [] \<and>
         v = (if contains ''://'' ep then ep else if no_ssl flds then ''http://'' @ ep else ''https://'' @ ep))
     \<or> k = ''aws_virtual_hosted_style_request'' \<and> v = ''false'' \<and>
         (\<exists>style. flds ''url_style'' = Some style \<and> eq_ignore_ascii_case style ''path'')
     \<or> k = ''aws_allow_http'' \<and> v = ''true'' \<and> no_ssl flds"

lemma nonempty_field_iff: "nonempty_field flds f = Some v \<longleftrightarrow> flds f = Some v \<and> v \<noteq> []"
  by (auto simp: nonempty_field_def split: option.splits)

lemma s3_field_mem:
  "(k, v) \<in> set (opt_push n (nonempty_field flds f)) \<longleftrightarrow> k = n \<and> flds f = Some v \<and> v \<noteq> []"
  by (simp only: opt_push_mem nonempty_field_iff)

lemma s3_endpoint_mem:
  assumes "ssl = Some False \<longleftrightarrow> no_ssl flds"
  shows "(k, v) \<in> set (opt_push n (map_option (\<lambda>v. normalize_endpoint v ssl) (nonempty_field flds f)))
    \<longleftrightarrow> k = n \<and> (\<exists>ep. flds f = Some ep \<and> ep \<noteq> [] \<and>
         v = (if contains ''://'' ep then ep else if no_ssl flds then ''http://'' @ ep else ''https://'' @ ep))"
proof -
  have "normalize_endpoint ep ssl
      = (if contains ''://'' ep then ep else if no_ssl flds then ''http://'' @ ep else ''https://'' @ ep)" for ep
    by (simp add: normalize_endpoint_def assms)
  then show ?thesis by (auto simp only: opt_push_mem map_option_eq_Some nonempty_field_iff)
qed

lemma s3_style_mem:
  "(k, v) \<in> set (case nonempty_field flds f of None \<Rightarrow> []
      | Some v \<Rightarrow> if eq_ignore_ascii_case v ''path'' then [(n, d)] else [])
    \<longleftrightarrow> k = n \<and> v = d \<and> (\<exists>style. flds f = Some style \<and> eq_ignore_ascii_case style ''path'')"
  by (cases "flds f") (auto simp: nonempty_field_def eq_ignore_ascii_case_def ascii_lower_def)

lemma if_mem: "(k, v) \<in> set (if b then [(n, d)] else []) \<longleftrightarrow> k = n \<and> v = d \<and> b"
  by auto

lemma s3_options_set:
  assumes "sec (url_text u) ''s3'' = Some flds"
  shows "(k, v) \<in> set (s3_options sec u) \<longleftrightarrow> s3_grants flds k v"
proof -
  let ?ssl = "Option.bind (flds ''use_ssl'') parse_bool"
  have ssl: "?ssl = Some False \<longleftrightarrow> no_ssl flds"
    by (auto simp: no_ssl_def bind_eq_Some_conv)
  show ?thesis
    unfolding s3_options_def assms option.case Let_def set_append Un_iff s3_field_mem s3_endpoint_mem [OF ssl]
      s3_style_mem if_mem ssl s3_grants_def
    by (rule refl)
qed

text \<open>
  C34: the options a store is built with. The secret's options come first, each key at most once and
  no value empty, and the call's overrides follow them. They are exactly what the \<open>s3\<close> secret resolved
  for the text of this very URL grants: its key id, secret, session token and region each under its
  own name, its endpoint with \<open>http\<close> or \<open>https\<close> as \<open>use_ssl\<close> says unless it has a scheme, path style and
  plain \<open>http\<close> when it asks for them, nothing else and nothing of another URL's secret. An \<open>http(s)\<close>
  URL, or one without a secret, gets the overrides only, never a credential.
\<close>

theorem store_options_scoped:
  assumes "build_store w u sec ov = Inr r"
  shows "\<exists>opts. parse_url_opts w u (opts @ ov) = Inr r \<and> distinct (map fst opts)
    \<and> list_all (\<lambda>(k, v). v \<noteq> []) opts
    \<and> set opts = {(k, v). secret_type_for u = Some ''s3''
        \<and> (\<exists>flds. sec (url_text u) ''s3'' = Some flds \<and> s3_grants flds k v)}
    \<and> (opts = [] \<or> \<not> is_http u \<and> sec (url_text u) ''s3'' \<noteq> None)"
proof -
  let ?opts = "if secret_type_for u = Some ''s3'' then s3_options sec u else []"
  have "parse_url_opts w u (?opts @ ov) = Inr r"
    using assms by (auto simp: build_store_def try_then_Inr_iff Let_def)
  moreover have "distinct (map fst ?opts)" by (simp add: s3_options_keys)
  moreover have "list_all (\<lambda>(k, v). v \<noteq> []) ?opts"
    using s3_options_values [of _ _ sec u] by (auto simp: list_all_iff)
  moreover have "?opts = [] \<or> \<not> is_http u \<and> sec (url_text u) ''s3'' \<noteq> None"
    by (auto simp: secret_type_for_def is_http_def s3_options_def)
  moreover have "set ?opts = {(k, v). secret_type_for u = Some ''s3''
      \<and> (\<exists>flds. sec (url_text u) ''s3'' = Some flds \<and> s3_grants flds k v)}"
    using s3_options_set [of sec u] by (cases "sec (url_text u) ''s3''") (auto simp: s3_options_def)
  ultimately show ?thesis by blast
qed

definition s3_sample :: url where
  "s3_sample = \<lparr>url_text = ''s3://b/d/*.mrt'', url_scheme = ''s3'', url_host = Some ''b'',
    url_path = ''/d/*.mrt''\<rparr>"

definition key_secret :: secrets where
  "key_secret = (\<lambda>_ _. Some [''key_id'' \<mapsto> ''AK'', ''region'' \<mapsto> []])"

theorem store_options_scoped_witness:
  "\<exists>opts. parse_url_opts sample_world s3_sample (opts @ [(''aws_region'', ''eu'')]) = Inr ((), ''/d/*.mrt'')
     \<and> distinct (map fst opts) \<and> set opts = {(''aws_access_key_id'', ''AK'')}"
proof -
  have store: "build_store sample_world s3_sample key_secret [(''aws_region'', ''eu'')] = Inr ((), ''/d/*.mrt'')"
    by (simp add: build_store_def is_http_def s3_sample_def sample_world_def)
  have grants: "s3_grants [''key_id'' \<mapsto> ''AK'', ''region'' \<mapsto> []] k v \<longleftrightarrow> k = ''aws_access_key_id'' \<and> v = ''AK''" for k v
    unfolding s3_grants_def no_ssl_def by auto
  have secret: "secret_type_for s3_sample = Some ''s3''" "key_secret t n = Some [''key_id'' \<mapsto> ''AK'', ''region'' \<mapsto> []]" for t n
    by (simp_all add: secret_type_for_def s3_sample_def key_secret_def)
  have "{(k, v). k = ''aws_access_key_id'' \<and> v = ''AK''} = {(''aws_access_key_id'', ''AK'')}" by blast
  moreover obtain opts where "parse_url_opts sample_world s3_sample (opts @ [(''aws_region'', ''eu'')]) = Inr ((), ''/d/*.mrt'')"
    "distinct (map fst opts)" "set opts = {(k, v). k = ''aws_access_key_id'' \<and> v = ''AK''}"
    using store_options_scoped [OF store] unfolding secret option.inject ex_simps simp_thms grants by blast
  ultimately show ?thesis by metis
qed

text \<open>
  The listing prefix of a glob is sound: it is the key's text up to a slash (or nothing), holds
  no wildcard, is cut at the last slash before the first wildcard, and so, when the \<open>glob\<close> crate
  matches the literal text before the first wildcard literally, every key that matches the pattern
  starts with it: a listing by this prefix misses no match.
\<close>

theorem glob_prefix_sound:
  assumes "contains_any glob_chars key"
    and "\<forall>k. glob_match_with w True key k \<longrightarrow> starts_with k (takeWhile (\<lambda>c. c \<notin> set glob_chars) key)"
  shows "\<not> contains_any glob_chars (glob_prefix key)
    \<and> (glob_prefix key = [] \<or> last (glob_prefix key) = CHR ''/'')
    \<and> (\<exists>seg c rest. key = glob_prefix key @ seg @ c # rest \<and> c \<in> set glob_chars \<and> CHR ''/'' \<notin> set seg)
    \<and> (glob_matches w key k \<longrightarrow> starts_with k (glob_prefix key))"
proof -
  obtain seg c rest where s: "key = glob_prefix key @ seg @ c # rest" "c \<in> set glob_chars"
    "CHR ''/'' \<notin> set seg" "\<not> contains_any glob_chars (glob_prefix key @ seg)"
    "glob_prefix key = [] \<or> last (glob_prefix key) = CHR ''/''"
    using glob_prefix_shape [OF assms(1)] by metis
  have "takeWhile (\<lambda>c. c \<notin> set glob_chars) key
      = glob_prefix key @ seg @ takeWhile (\<lambda>c. c \<notin> set glob_chars) (c # rest)"
    using s(4) by (subst s(1)) (force simp: contains_any_def takeWhile_append2)
  then have "takeWhile (\<lambda>c. c \<notin> set glob_chars) key = glob_prefix key @ seg"
    using s(2) by simp
  with assms(2) have "glob_matches w key k \<longrightarrow> starts_with k (glob_prefix key @ seg)"
    by (simp add: glob_matches_def)
  moreover have "starts_with k (glob_prefix key @ seg) \<Longrightarrow> starts_with k (glob_prefix key)"
    unfolding starts_with_def take_eq_prefix_iff by auto
  moreover have "\<not> contains_any glob_chars (glob_prefix key)"
    using s(4) by (auto simp: contains_any_def)
  ultimately show ?thesis using s(1,2,3,5) by blast
qed

theorem glob_prefix_sound_witness:
  "starts_with ''d/a.mrt'' (glob_prefix ''d/*.mrt'')"
proof -
  have "contains_any glob_chars ''d/*.mrt''" by code_simp
  moreover have "\<forall>k. glob_match_with sample_world True ''d/*.mrt'' k \<longrightarrow>
      starts_with k (takeWhile (\<lambda>c. c \<notin> set glob_chars) ''d/*.mrt'')"
    by (simp add: sample_world_def starts_with_def Let_def)
  moreover have "glob_matches sample_world ''d/*.mrt'' ''d/a.mrt''" by code_simp
  ultimately show ?thesis
    using glob_prefix_sound [of "''d/*.mrt''" sample_world "''d/a.mrt''"] by blast
qed



end
