(* ===== verification/Float64.thy ===== *)
theory Float64
  imports Prelude Complex_Main
begin

text \<open>
  IEEE 754 double precision as far as \<open>ts_to_micros\<close> of \<open>bgp-core/src/decode.rs\<close> needs it, computed
  on integers: a finite double is sign, significand and exponent; multiplication rounds the exact
  product to 53 bits, ties to even, with gradual underflow and overflow; \<open>round\<close> goes to the
  nearest integer, ties away from zero; \<open>as i64\<close> truncates, saturates and sends NaN to 0.
  The main lemma is that a timestamp in seconds that is close enough to a whole number of
  microseconds is converted to exactly that number.
\<close>

datatype f64 = Finite bool nat int | Infinite bool | NaN

fun bitlen :: "nat \<Rightarrow> nat" where
  "bitlen m = (if m = 0 then 0 else Suc (bitlen (m div 2)))"

declare bitlen.simps [simp del]

text \<open>Divide by \<open>2 ^ k\<close>, to nearest, ties to even; and ties away from zero.\<close>

definition div_even :: "nat \<Rightarrow> nat \<Rightarrow> nat" where
  "div_even m k =
     (let q = m div 2 ^ k; r = m mod 2 ^ k
      in if 2 * r < 2 ^ k \<or> 2 * r = 2 ^ k \<and> even q then q else q + 1)"

definition div_away :: "nat \<Rightarrow> nat \<Rightarrow> nat" where
  "div_away m k = (let q = m div 2 ^ k; r = m mod 2 ^ k in if 2 * r < 2 ^ k then q else q + 1)"

definition round_shift :: "nat \<Rightarrow> int \<Rightarrow> nat" where
  "round_shift m e = nat (max (int (bitlen m) - 53) (- 1074 - e))"

definition round53 :: "bool \<Rightarrow> nat \<Rightarrow> int \<Rightarrow> f64" where
  "round53 s m e =
     (let k = round_shift m e; m' = div_even m k; e' = e + int k
      in if m' \<noteq> 0 \<and> int (bitlen m') + e' > 1024 then Infinite s else Finite s m' e')"

fun f64_mul :: "f64 \<Rightarrow> f64 \<Rightarrow> f64" where
  "f64_mul (Finite s m e) (Finite s' m' e') = round53 (s \<noteq> s') (m * m') (e + e')"
| "f64_mul (Infinite s) (Infinite s') = Infinite (s \<noteq> s')"
| "f64_mul (Infinite s) (Finite s' m e) = (if m = 0 then NaN else Infinite (s \<noteq> s'))"
| "f64_mul (Finite s m e) (Infinite s') = (if m = 0 then NaN else Infinite (s \<noteq> s'))"
| "f64_mul _ _ = NaN"

fun f64_round :: "f64 \<Rightarrow> f64" where
  "f64_round (Finite s m e) = (if 0 \<le> e then Finite s m e else Finite s (div_away m (nat (- e))) 0)"
| "f64_round x = x"

definition clamp_i64 :: "int \<Rightarrow> i64" where
  "clamp_i64 n = of_int (max (- (2 ^ 63)) (min (2 ^ 63 - 1) n))"

fun f64_to_i64 :: "f64 \<Rightarrow> i64" where
  "f64_to_i64 (Finite s m e) =
     clamp_i64 ((if s then - 1 else 1) *
       (if 0 \<le> e then int m * 2 ^ nat e else int m div 2 ^ nat (- e)))"
| "f64_to_i64 (Infinite s) = clamp_i64 (if s then - (2 ^ 63) else 2 ^ 63 - 1)"
| "f64_to_i64 NaN = 0"

definition million :: f64 where "million = Finite False 1000000 0"

text \<open>\<open>ts_to_micros\<close>: \<open>(ts * 1_000_000.0).round() as i64\<close>.\<close>

definition ts_to_micros :: "f64 \<Rightarrow> i64" where
  "ts_to_micros ts = f64_to_i64 (f64_round (f64_mul ts million))"

text \<open>The real number a finite double stands for.\<close>

fun f64_val :: "f64 \<Rightarrow> real" where
  "f64_val (Finite s m e) = (if s then - 1 else 1) * real m * 2 powi e"
| "f64_val _ = 0"

subsection \<open>Rounding errors\<close>

lemma bitlen_bounds: "m < 2 ^ bitlen m" "0 < m \<Longrightarrow> 2 ^ bitlen m \<le> 2 * m"
proof -
  have "m < 2 ^ bitlen m \<and> (0 < m \<longrightarrow> 2 ^ bitlen m \<le> 2 * m)"
  proof (induction m rule: bitlen.induct)
    case (1 m)
    show ?case
    proof (cases "m = 0")
      case True
      then show ?thesis by (simp add: bitlen.simps)
    next
      case False
      with 1 have "m div 2 < 2 ^ bitlen (m div 2)"
        "0 < m div 2 \<longrightarrow> 2 ^ bitlen (m div 2) \<le> 2 * (m div 2)" by auto
      moreover have "bitlen (m div 2) = 0" if "m div 2 = 0" using that by (simp add: bitlen.simps)
      ultimately have "m < 2 * 2 ^ bitlen (m div 2)" "2 * 2 ^ bitlen (m div 2) \<le> 2 * m"
        using False by (cases "m div 2 = 0"; auto; linarith)+
      with False show ?thesis by (subst (1 2) bitlen.simps) simp
    qed
  qed
  then show "m < 2 ^ bitlen m" "0 < m \<Longrightarrow> 2 ^ bitlen m \<le> 2 * m" by auto
qed

lemma nearest_div:
  assumes "q = m div 2 ^ k \<and> 2 * (m mod 2 ^ k) \<le> 2 ^ k
      \<or> q = m div 2 ^ k + 1 \<and> 2 ^ k \<le> 2 * (m mod 2 ^ k)"
  shows "\<bar>real q * 2 ^ k - real m\<bar> \<le> 2 ^ k / 2"
proof -
  define Q R where "Q = m div 2 ^ k" and "R = m mod 2 ^ k"
  have "m = Q * 2 ^ k + R" unfolding Q_def R_def by (rule div_mult_mod_eq [symmetric])
  then have m: "real m = real Q * 2 ^ k + real R" by simp
  have "R < 2 ^ k" unfolding R_def by simp
  then have lt: "real R < 2 ^ k" by (metis of_nat_less_iff of_nat_numeral of_nat_power)
  have conv: "2 * R \<le> 2 ^ k \<Longrightarrow> 2 * real R \<le> 2 ^ k" "2 ^ k \<le> 2 * R \<Longrightarrow> 2 ^ k \<le> 2 * real R"
    by (metis of_nat_le_iff of_nat_mult of_nat_numeral of_nat_power)+
  consider "q = Q" "2 * R \<le> 2 ^ k" | "q = Q + 1" "2 ^ k \<le> 2 * R"
    using assms by (auto simp: Q_def R_def)
  then show ?thesis
  proof cases
    case 1
    then have "real q * 2 ^ k - real m = - real R" by (simp only: m)
    with conv(1) [OF 1(2)] show ?thesis by simp
  next
    case 2
    then have "real q * 2 ^ k - real m = 2 ^ k - real R" by (simp add: m algebra_simps)
    with conv(2) [OF 2(2)] lt show ?thesis by simp
  qed
qed

lemma div_even_error: "\<bar>real (div_even m k) * 2 ^ k - real m\<bar> \<le> 2 ^ k / 2"
  by (rule nearest_div) (auto simp: div_even_def Let_def)

lemma div_away_error: "\<bar>real (div_away m k) * 2 ^ k - real m\<bar> \<le> 2 ^ k / 2"
  by (rule nearest_div) (auto simp: div_away_def Let_def)

lemma powi_add_nat: "2 powi (e + int k) = 2 powi e * (2::real) ^ k"
  by (simp add: power_int_add)

lemma scaled_error:
  assumes "\<bar>real q * 2 ^ k - real m\<bar> \<le> 2 ^ k / 2"
  shows "\<bar>real q * 2 powi (e + int k) - real m * 2 powi e\<bar> \<le> 2 powi (e + int k) / 2"
proof -
  have "real q * 2 powi (e + int k) - real m * 2 powi e = (real q * 2 ^ k - real m) * 2 powi e"
    by (simp add: powi_add_nat algebra_simps)
  then have "\<bar>real q * 2 powi (e + int k) - real m * 2 powi e\<bar>
      = \<bar>real q * 2 ^ k - real m\<bar> * 2 powi e"
    by (simp add: abs_mult)
  also have "\<dots> \<le> 2 ^ k / 2 * 2 powi e"
    using assms by (intro mult_right_mono) auto
  also have "\<dots> = 2 powi (e + int k) / 2" by (simp add: powi_add_nat)
  finally show ?thesis .
qed

lemma powi_less_imp: "2 powi i < (2 powi j :: real) \<Longrightarrow> i < j"
  by (meson linorder_not_less one_le_numeral power_int_increasing)

lemma bitlen_powi: "0 < m \<Longrightarrow> 2 powi (int (bitlen m) + e) \<le> 2 * (real m * 2 powi e)"
proof -
  assume "0 < m"
  then have "2 ^ bitlen m \<le> 2 * m" by (rule bitlen_bounds)
  then have "(2::real) ^ bitlen m \<le> 2 * real m"
    by (metis of_nat_le_iff of_nat_mult of_nat_numeral of_nat_power)
  then have "2 powi e * (2::real) ^ bitlen m \<le> 2 powi e * (2 * real m)"
    by (intro mult_left_mono) auto
  then show ?thesis using powi_add_nat [of e "bitlen m"] by (simp add: ac_simps)
qed

lemma round53_quarter:
  assumes small: "real m * 2 powi e < 2 ^ 52"
  shows "\<exists>m' e'. round53 s m e = Finite s m' e'
    \<and> \<bar>real m' * 2 powi e' - real m * 2 powi e\<bar> \<le> 1 / 4"
proof -
  define k where "k = round_shift m e"
  define m' where "m' = div_even m k"
  define e' where "e' = e + int k"
  have err: "\<bar>real m' * 2 powi e' - real m * 2 powi e\<bar> \<le> 1 / 4"
  proof (cases "k = 0")
    case True
    then have "m' = m" by (simp add: m'_def div_even_def)
    with True show ?thesis by (simp add: e'_def)
  next
    case False
    have "e' < 0"
    proof (cases "int (bitlen m) - 53 \<le> - 1074 - e")
      case True
      with False show ?thesis by (simp add: e'_def k_def round_shift_def)
    next
      case big: False
      then have k: "int k = int (bitlen m) - 53"
        using False by (simp add: k_def round_shift_def)
      then have "0 < m" using False by (cases "m = 0") (auto simp: bitlen.simps)
      then have "2 powi (int (bitlen m) + e) \<le> 2 * (real m * 2 powi e)" by (rule bitlen_powi)
      also have "\<dots> < 2 powi 53" using small by (simp add: power_int_def)
      finally have "int (bitlen m) + e < 53" by (rule powi_less_imp)
      with k show ?thesis by (simp add: e'_def)
    qed
    then have "2 powi e' \<le> (2 powi (- 1) :: real)" by (intro power_int_increasing) auto
    then have "2 powi e' / 2 \<le> (1 / 4 :: real)" by (simp add: power_int_def)
    moreover have "\<bar>real m' * 2 powi e' - real m * 2 powi e\<bar> \<le> 2 powi e' / 2"
      unfolding e'_def m'_def by (rule scaled_error [OF div_even_error])
    ultimately show ?thesis by linarith
  qed
  have "m' = 0 \<or> int (bitlen m') + e' \<le> 1024"
  proof (rule disjCI)
    assume "\<not> int (bitlen m') + e' \<le> 1024"
    show "m' = 0"
    proof (rule ccontr)
      assume "m' \<noteq> 0"
      then have "2 powi (int (bitlen m') + e') \<le> 2 * (real m' * 2 powi e')"
        by (intro bitlen_powi) simp
      also have "real m' * 2 powi e' < 2 ^ 52 + 1" using err small by linarith
      then have "2 * (real m' * 2 powi e') < 2 powi 54" by simp
      finally have "int (bitlen m') + e' < 54" by (rule powi_less_imp)
      with \<open>\<not> int (bitlen m') + e' \<le> 1024\<close> show False by simp
    qed
  qed
  then have "round53 s m e = Finite s m' e'"
    by (auto simp: round53_def Let_def k_def m'_def e'_def)
  with err show ?thesis by blast
qed

lemma f64_round_near:
  assumes near: "\<bar>real m * 2 powi e - real n\<bar> < 1 / 2" and n: "n < 2 ^ 63"
  shows "f64_to_i64 (f64_round (Finite False m e)) = of_nat n"
proof -
  have clamp: "clamp_i64 (int n) = of_nat n"
  proof -
    have "int n \<le> 2 ^ 63 - 1" using n by simp
    then have "max (- (2 ^ 63)) (min (2 ^ 63 - 1) (int n)) = int n" by linarith
    then show ?thesis by (simp only: clamp_i64_def of_int_of_nat_eq)
  qed
  show ?thesis
  proof (cases "0 \<le> e")
    case True
    then have "real m * 2 powi e = real (m * 2 ^ nat e)" by (simp add: power_int_def)
    with near have "\<bar>real (m * 2 ^ nat e) - real n\<bar> < 1 / 2" by simp
    then have "m * 2 ^ nat e = n" by linarith
    then have "int m * 2 ^ nat e = int n" by (metis of_nat_mult of_nat_numeral of_nat_power)
    with True clamp show ?thesis by simp
  next
    case False
    define k where "k = nat (- e)"
    have ek: "e + int k = 0" using False by (simp add: k_def)
    have "\<bar>real (div_away m k) * 2 powi (e + int k) - real m * 2 powi e\<bar> \<le> 2 powi (e + int k) / 2"
      by (rule scaled_error [OF div_away_error])
    with ek have "\<bar>real (div_away m k) - real m * 2 powi e\<bar> \<le> 1 / 2" by simp
    with near have "div_away m k = n" by linarith
    with False clamp show ?thesis by (simp add: k_def)
  qed
qed

lemma ts_to_micros_near:
  assumes "s < 2 ^ 32" "u < 1000000"
    and near: "\<bar>f64_val (Finite False m e) - (real s + real u / 1000000)\<bar> < 1 / 4000000"
  shows "ts_to_micros (Finite False m e) = of_nat (s * 1000000 + u)"
proof -
  let ?n = "s * 1000000 + u"
  let ?p = "real (m * 1000000) * 2 powi e"
  have n: "real ?n \<le> 4294967296 * 1000000" "?n < 2 ^ 63" using assms(1,2) by simp_all
  have "?p - real ?n = 1000000 * (f64_val (Finite False m e) - (real s + real u / 1000000))"
    by (simp add: algebra_simps)
  then have "\<bar>?p - real ?n\<bar>
      = 1000000 * \<bar>f64_val (Finite False m e) - (real s + real u / 1000000)\<bar>"
    by (simp only: abs_mult abs_numeral)
  also have "\<dots> < 1000000 * (1 / 4000000)"
    by (rule mult_strict_left_mono [OF near]) simp
  finally have p: "\<bar>?p - real ?n\<bar> < 1 / 4" by simp
  then have "?p < real ?n + 1 / 4" by (simp only: abs_less_iff) linarith
  also have "\<dots> < 4294967296 * 1000000 + 1" using n(1) by linarith
  also have "\<dots> < 2 ^ 52" by simp
  finally have small: "?p < 2 ^ 52" .
  obtain m' e' where r: "round53 False (m * 1000000) e = Finite False m' e'"
    "\<bar>real m' * 2 powi e' - ?p\<bar> \<le> 1 / 4"
    using round53_quarter [OF small] by blast
  have "\<bar>real m' * 2 powi e' - real ?n\<bar> < 1 / 2" using p r(2) by linarith
  then have "f64_to_i64 (f64_round (Finite False m' e')) = of_nat ?n"
    using n(2) by (rule f64_round_near)
  with r(1) show ?thesis by (simp add: ts_to_micros_def million_def)
qed

subsection \<open>Properties\<close>

text \<open>
  C18: timestamps are exact: a double that lies within a quarter of a microsecond of \<open>s\<close> seconds and
  \<open>u\<close> microseconds (as every double nearest to such a time does, up to the largest 32-bit
  timestamp, where neighbouring doubles are \<open>2 ^ -21\<close> seconds apart) is converted by
  \<open>ts_to_micros\<close> to exactly \<open>s * 1_000_000 + u\<close>: neither the rounding of the multiplication nor
  the conversion loses a microsecond.
\<close>

theorem ts_to_micros_exact:
  assumes "s < 2 ^ 32" "u < 1000000"
    and near: "\<bar>f64_val (Finite False m e) - (real s + real u / 1000000)\<bar> < 1 / 4000000"
  shows "ts_to_micros (Finite False m e) = of_nat (s * 1000000 + u)"
  using assms by (rule ts_to_micros_near)

text \<open>The fixture timestamp 1751155200 with 250000 microseconds is the double \<open>7004620801 / 4\<close>.\<close>

theorem ts_to_micros_exact_witness:
  "ts_to_micros (Finite False 7004620801 (- 2)) = of_nat (1751155200 * 1000000 + 250000)"
  by (rule ts_to_micros_exact) (simp_all add: power_int_def power2_eq_square)

end
