(* ===== verification/Decode.thy ===== *)
theory Decode
  imports Stream_Ops Inet Float64
begin

text \<open>
  \<open>bgp-core/src/decode.rs\<close>: parsed MRT records become flat rows.

  \<^item> \<open>mrt_row\<close> and \<open>peer_row\<close> are the structs \<open>MrtRow\<close> and \<open>PeerRow\<close> (fields prefixed by \<open>r_\<close> and
    \<open>p_\<close>), \<open>msg_type\<close> the enum \<open>MsgType\<close>, \<open>decoder\<close> the struct \<open>Decoder\<close>.
  \<^item> The crate \<open>bgpkit-parser\<close> is not part of the repository. Its values appear here with the parts
    the code reads (newtypes such as \<open>Asn\<close> by the integer their \<open>From\<close> conversion yields) and an
    opaque rest of type \<open>'x\<close>; its operations are the fields of \<open>bgpkit\<close>, a parameter of every
    definition that calls them. \<open>'e\<close> is the state of its \<open>Elementor\<close>.
  The lemmas give the shape of every row, the timestamp it carries, and the view name the decoder
  remembers.
\<close>

subsection \<open>Values of the parser crate\<close>

datatype parser_error = IoError io_error | EofError io_error | EofExpected | OtherError string

record 'x common_header =
  h_timestamp :: u32
  h_microsecond_timestamp :: "u32 option"
  h_rest :: 'x

record peer =
  peer_ip :: ip_addr
  peer_asn :: u32

record 'x peer_index_table =
  pit_view_name :: string
  pit_id_peer_map :: "(u16 \<times> peer) list"
  pit_rest :: 'x

record 'x bgp4mp_message =
  m_peer_ip :: ip_addr
  m_peer_asn :: u32
  m_rest :: 'x

record bgp4mp_state_change =
  sc_peer_ip :: ip_addr
  sc_peer_asn :: u32
  sc_old_state :: u16
  sc_new_state :: u16

datatype 'x mrt_message =
    PeerIndexTable "'x peer_index_table"
  | Bgp4MpMessage "'x bgp4mp_message"
  | Bgp4MpStateChange bgp4mp_state_change
  | OtherMessage 'x

record 'x mrt_record =
  mrt_header :: "'x common_header"
  mrt_message :: "'x mrt_message"

datatype elem_type = ANNOUNCE | WITHDRAW

record 'x bgp_elem =
  el_timestamp :: f64
  el_type :: elem_type
  el_peer_ip :: ip_addr
  el_peer_asn :: u32
  el_prefix :: "ip_addr \<times> u8"
  el_next_hop :: "ip_addr option"
  el_as_path :: "'x option"
  el_communities :: "'x list option"
  el_med :: "u32 option"
  el_local_pref :: "u32 option"
  el_atomic :: bool
  el_aggr_asn :: "u32 option"
  el_rest :: 'x

record ('x, 'e) bgpkit =
  parse_mrt_record :: "(parser_error + 'x mrt_record) rprog"
  elementor_new :: 'e
  set_peer_table :: "'e \<Rightarrow> 'x mrt_record \<Rightarrow> 'e"
  record_to_elems :: "'e \<Rightarrow> 'x mrt_record \<Rightarrow> 'x bgp_elem list \<times> 'e"
  to_u32_vec_opt :: "'x \<Rightarrow> bool \<Rightarrow> u32 list option"
  get_origin_asn_opt :: "'x bgp_elem \<Rightarrow> u32 option"
  community_to_string :: "'x \<Rightarrow> string"
  show_parser_error :: "parser_error \<Rightarrow> string"

subsection \<open>Rows\<close>

datatype msg_type = Announce | Withdraw | StateChange

fun msg_as_str :: "msg_type \<Rightarrow> string" where
  "msg_as_str Announce = ''announce''"
| "msg_as_str Withdraw = ''withdraw''"
| "msg_as_str StateChange = ''state_change''"

record mrt_row =
  r_timestamp_us :: i64
  r_msg_type :: "msg_type option"
  r_view_name :: "string option"
  r_peer_ip :: "ip_addr option"
  r_peer_asn :: "u32 option"
  r_prefix :: "(ip_addr \<times> u16) option"
  r_as_path :: "u32 list option"
  r_origin_asn :: "u32 option"
  r_next_hop :: "ip_addr option"
  r_communities :: "string list option"
  r_med :: "u32 option"
  r_local_pref :: "u32 option"
  r_atomic_aggregate :: bool
  r_aggregator_asn :: "u32 option"
  r_old_state :: "u16 option"
  r_new_state :: "u16 option"
  r_error :: "string option"

definition default_row :: mrt_row where
  "default_row = \<lparr>r_timestamp_us = 0, r_msg_type = None, r_view_name = None, r_peer_ip = None,
     r_peer_asn = None, r_prefix = None, r_as_path = None, r_origin_asn = None,
     r_next_hop = None, r_communities = None, r_med = None, r_local_pref = None,
     r_atomic_aggregate = False, r_aggregator_asn = None, r_old_state = None,
     r_new_state = None, r_error = None\<rparr>"

definition error_row :: "string \<Rightarrow> mrt_row" where
  "error_row msg = default_row\<lparr>r_error := Some msg\<rparr>"

record peer_row =
  p_peer_ip :: ip_addr
  p_peer_asn :: u32
  p_collector :: "string option"

subsection \<open>Errors\<close>

fun is_recoverable :: "parser_error \<Rightarrow> bool" where
  "is_recoverable (IoError _) = False"
| "is_recoverable (EofError _) = False"
| "is_recoverable EofExpected = False"
| "is_recoverable _ = True"

fun is_clean_eof :: "parser_error \<Rightarrow> bool" where
  "is_clean_eof EofExpected = True"
| "is_clean_eof _ = False"

subsection \<open>The decoder\<close>

record 'e decoder =
  elementor :: 'e
  view_name :: "string option"

definition decoder_new :: "('x, 'e) bgpkit \<Rightarrow> 'e decoder" where
  "decoder_new kit = \<lparr>elementor = elementor_new kit, view_name = None\<rparr>"

definition nonempty_name :: "string \<Rightarrow> string option" where
  "nonempty_name s = (if s = [] then None else Some s)"

definition row_from_elem ::
  "('x, 'e) bgpkit \<Rightarrow> 'x bgp_elem \<Rightarrow> string option \<Rightarrow> mrt_row" where
  "row_from_elem kit elem view =
     \<lparr>r_timestamp_us = ts_to_micros (el_timestamp elem),
      r_msg_type = Some (case el_type elem of ANNOUNCE \<Rightarrow> Announce | WITHDRAW \<Rightarrow> Withdraw),
      r_view_name = view,
      r_peer_ip = Some (el_peer_ip elem),
      r_peer_asn = Some (el_peer_asn elem),
      r_prefix = Some (fst (el_prefix elem), ucast (snd (el_prefix elem))),
      r_as_path = Option.bind (el_as_path elem) (\<lambda>p. to_u32_vec_opt kit p False),
      r_origin_asn = get_origin_asn_opt kit elem,
      r_next_hop = el_next_hop elem,
      r_communities = map_option (map (community_to_string kit)) (el_communities elem),
      r_med = el_med elem,
      r_local_pref = el_local_pref elem,
      r_atomic_aggregate = el_atomic elem,
      r_aggregator_asn = el_aggr_asn elem,
      r_old_state = None,
      r_new_state = None,
      r_error = None\<rparr>"

definition state_change_ts :: "'x common_header \<Rightarrow> i64" where
  "state_change_ts header =
     ucast (h_timestamp header) * 1000000
     + ucast (case h_microsecond_timestamp header of None \<Rightarrow> 0 | Some us \<Rightarrow> us)"

definition record_rows ::
  "('x, 'e) bgpkit \<Rightarrow> 'e decoder \<Rightarrow> 'x mrt_record \<Rightarrow> mrt_row list \<times> 'e decoder" where
  "record_rows kit d record =
     (case mrt_message record of
        PeerIndexTable pit \<Rightarrow>
          ([], d\<lparr>view_name := nonempty_name (pit_view_name pit),
                 elementor := set_peer_table kit (elementor d) record\<rparr>)
      | Bgp4MpStateChange sc \<Rightarrow>
          ([default_row\<lparr>
              r_timestamp_us := state_change_ts (mrt_header record),
              r_msg_type := Some StateChange,
              r_view_name := view_name d,
              r_peer_ip := Some (sc_peer_ip sc),
              r_peer_asn := Some (sc_peer_asn sc),
              r_old_state := Some (sc_old_state sc),
              r_new_state := Some (sc_new_state sc)\<rparr>], d)
      | _ \<Rightarrow>
          (case record_to_elems kit (elementor d) record of
             (elems, el') \<Rightarrow>
               (map (\<lambda>elem. row_from_elem kit elem (view_name d)) elems, d\<lparr>elementor := el'\<rparr>)))"

definition peer_rows :: "'e decoder \<Rightarrow> 'x mrt_record \<Rightarrow> peer_row list \<times> 'e decoder" where
  "peer_rows d record =
     (case mrt_message record of
        PeerIndexTable pit \<Rightarrow>
          (let d' = d\<lparr>view_name := nonempty_name (pit_view_name pit)\<rparr>; collector = view_name d'
           in (map (\<lambda>p. \<lparr>p_peer_ip = peer_ip p, p_peer_asn = peer_asn p, p_collector = collector\<rparr>)
                 (map snd (pit_id_peer_map pit)), d'))
      | Bgp4MpMessage m \<Rightarrow>
          ([\<lparr>p_peer_ip = m_peer_ip m, p_peer_asn = m_peer_asn m, p_collector = view_name d\<rparr>], d)
      | Bgp4MpStateChange sc \<Rightarrow>
          ([\<lparr>p_peer_ip = sc_peer_ip sc, p_peer_asn = sc_peer_asn sc, p_collector = view_name d\<rparr>], d)
      | OtherMessage x \<Rightarrow> ([], d))"

definition next_record ::
  "('x, 'e) bgpkit \<Rightarrow> 'r read_fn \<Rightarrow> 'r \<Rightarrow> (parser_error + 'x mrt_record option) \<times> 'r" where
  "next_record kit rd reader =
     (case run rd (parse_mrt_record kit) reader of
        (Inr rec, reader') \<Rightarrow> (Inr (Some rec), reader')
      | (Inl e, reader') \<Rightarrow> (if is_clean_eof e then Inr None else Inl e, reader'))"

subsection \<open>Lemmas\<close>

lemma next_record_cases:
  "next_record kit rd r = (Inr (Some rec), r') \<longleftrightarrow> run rd (parse_mrt_record kit) r = (Inr rec, r')"
  "next_record kit rd r = (Inr None, r') \<longleftrightarrow> run rd (parse_mrt_record kit) r = (Inl EofExpected, r')"
  "next_record kit rd r = (Inl e, r') \<longleftrightarrow>
     run rd (parse_mrt_record kit) r = (Inl e, r') \<and> e \<noteq> EofExpected"
  by (auto simp: next_record_def split: prod.splits sum.splits elim: is_clean_eof.elims)

lemma error_row_fields [simp]:
  "r_error (error_row msg) = Some msg" "r_timestamp_us (error_row msg) = 0"
  "r_msg_type (error_row msg) = None" "r_atomic_aggregate (error_row msg) = False"
  by (simp_all add: error_row_def default_row_def)

text \<open>The view name after a record, and after a sequence of records.\<close>

fun view_after :: "string option \<Rightarrow> 'x mrt_record \<Rightarrow> string option" where
  "view_after v record = (case mrt_message record of
      PeerIndexTable pit \<Rightarrow> nonempty_name (pit_view_name pit)
    | _ \<Rightarrow> v)"

lemma view_record_rows: "view_name (snd (record_rows kit d rec)) = view_after (view_name d) rec"
  by (simp add: record_rows_def split: mrt_message.splits prod.splits)

lemma view_peer_rows: "view_name (snd (peer_rows d rec)) = view_after (view_name d) rec"
  by (simp add: peer_rows_def Let_def split: mrt_message.splits)

text \<open>What every row of a record looks like.\<close>

definition route_row :: "string option \<Rightarrow> mrt_row \<Rightarrow> bool" where
  "route_row view r \<longleftrightarrow>
     (r_msg_type r = Some Announce \<or> r_msg_type r = Some Withdraw)
     \<and> r_prefix r \<noteq> None \<and> r_old_state r = None \<and> r_new_state r = None
     \<and> r_view_name r = view"

definition state_row :: "string option \<Rightarrow> mrt_row \<Rightarrow> bool" where
  "state_row view r \<longleftrightarrow>
     r_msg_type r = Some StateChange \<and> r_old_state r \<noteq> None \<and> r_new_state r \<noteq> None
     \<and> r_prefix r = None \<and> r_as_path r = None \<and> r_origin_asn r = None \<and> r_next_hop r = None
     \<and> r_communities r = None \<and> r_view_name r = view"

definition decoded_row :: "mrt_row \<Rightarrow> bool" where
  "decoded_row r \<longleftrightarrow> r_error r = None \<and> r_peer_ip r \<noteq> None \<and> r_peer_asn r \<noteq> None"

lemma row_from_elem_shape:
  "route_row view (row_from_elem kit el view)" "decoded_row (row_from_elem kit el view)"
  by (auto simp: row_from_elem_def route_row_def decoded_row_def split: elem_type.split)

lemma row_from_elem_fields:
  "r_error (row_from_elem kit el view) = None"
  "r_peer_ip (row_from_elem kit el view) = Some (el_peer_ip el)"
  "r_peer_asn (row_from_elem kit el view) = Some (el_peer_asn el)"
  "r_timestamp_us (row_from_elem kit el view) = ts_to_micros (el_timestamp el)"
  by (simp_all add: row_from_elem_def)

lemma record_rows_shape:
  "r \<in> set (fst (record_rows kit d rec)) \<Longrightarrow>
     decoded_row r \<and> (if \<exists>sc. mrt_message rec = Bgp4MpStateChange sc
                      then state_row (view_name d) r else route_row (view_name d) r)"
  by (auto simp: record_rows_def row_from_elem_shape row_from_elem_fields default_row_def
      state_row_def decoded_row_def split: mrt_message.splits prod.splits)

text \<open>The time a record header stands for, in microseconds.\<close>

definition header_micros :: "'x common_header \<Rightarrow> nat" where
  "header_micros h = unat (h_timestamp h) * 1000000
     + (case h_microsecond_timestamp h of None \<Rightarrow> 0 | Some us \<Rightarrow> unat us)"

lemma state_change_ts_eq: "state_change_ts h = of_nat (header_micros h)"
  by (simp add: state_change_ts_def header_micros_def split: option.split)

text \<open>Feeding a list of records to a decoder, in order.\<close>

fun records_rows ::
  "('x, 'e) bgpkit \<Rightarrow> 'e decoder \<Rightarrow> 'x mrt_record list \<Rightarrow> mrt_row list \<times> 'e decoder" where
  "records_rows kit d [] = ([], d)"
| "records_rows kit d (rec # recs) =
     (case record_rows kit d rec of
        (rows, d') \<Rightarrow> (case records_rows kit d' recs of (rows', d'') \<Rightarrow> (rows @ rows', d'')))"

lemma view_records_rows:
  "view_name (snd (records_rows kit d recs)) = foldl view_after (view_name d) recs"
proof (induction recs arbitrary: d)
  case (Cons rec recs)
  then show ?case by (simp add: split_beta view_record_rows del: view_after.simps)
qed simp

lemma records_rows_decoded:
  "r \<in> set (fst (records_rows kit d recs)) \<Longrightarrow> decoded_row r"
  by (induction recs arbitrary: d)
    (auto split: prod.splits dest: record_rows_shape [of _ kit, THEN conjunct1] simp: prod_eq_iff)

subsection \<open>Properties\<close>

text \<open>
  C12: every row decoded from a record is well formed, whatever the parser crate hands over: it has
  a peer address and ASN, a message type and no error; it is a state-change row (both FSM states, no
  prefix, path, next hop or communities) exactly when the record is a state change, otherwise an
  announcement or withdrawal with a prefix and no FSM states; and it carries the view name the
  decoder held. A peer index table yields no row at all.
\<close>

theorem record_rows_well_formed:
  "list_all (\<lambda>r. decoded_row r
      \<and> (if \<exists>sc. mrt_message rec = Bgp4MpStateChange sc
         then state_row (view_name d) r else route_row (view_name d) r))
     (fst (record_rows kit d rec))
   \<and> (case mrt_message rec of PeerIndexTable pit \<Rightarrow> fst (record_rows kit d rec) = [] | _ \<Rightarrow> True)"
  using record_rows_shape [of _ kit d rec]
  by (auto simp: list_all_iff record_rows_def split: mrt_message.splits)

text \<open>
  The view name is the last one announced: after any sequence of records the decoder holds the
  name of the last peer index table of the sequence (none when that name is empty), and keeps the
  earlier one when the sequence has no such table; the row decoder and the peer decoder agree.
\<close>

theorem view_name_last_table:
  "view_name (snd (records_rows kit d recs)) =
     (case filter (\<lambda>rec. \<exists>pit. mrt_message rec = PeerIndexTable pit) recs of
        [] \<Rightarrow> view_name d
      | t # ts \<Rightarrow> view_after None (last (t # ts)))
   \<and> view_name (snd (peer_rows d rec)) = view_name (snd (record_rows kit d rec))"
proof -
  have other: "view_after v r = v" if "\<nexists>pit. mrt_message r = PeerIndexTable pit" for v r
    using that by (cases "mrt_message r") auto
  have table: "view_after v r = view_after None r" if "\<exists>pit. mrt_message r = PeerIndexTable pit" for v r
    using that by auto
  have "foldl view_after v recs =
     (case filter (\<lambda>rec. \<exists>pit. mrt_message rec = PeerIndexTable pit) recs of
        [] \<Rightarrow> v | t # ts \<Rightarrow> view_after None (last (t # ts)))" for v
  proof (induction recs arbitrary: v)
    case (Cons r recs)
    show ?case
    proof (cases "\<exists>pit. mrt_message r = PeerIndexTable pit")
      case True
      then show ?thesis
        using Cons [of "view_after v r"] table [OF True, of v]
        by (auto simp del: view_after.simps split: list.splits)
    next
      case False
      then show ?thesis using Cons [of v] other [OF False, of v] by (simp del: view_after.simps)
    qed
  qed simp
  then show ?thesis
    by (simp only: view_records_rows view_record_rows view_peer_rows)
qed

text \<open>
  Both kinds of rows carry the same clock: when the elements the crate derives from a record have
  a double timestamp within a quarter of a microsecond of the header's time (its documented value),
  every row of the record, state change or route, has the timestamp
  \<open>seconds * 1_000_000 + microseconds\<close> of the header, with no overflow as an \<open>i64\<close>.
\<close>

theorem record_rows_timestamp:
  assumes "r \<in> set (fst (record_rows kit d rec))"
    and "case h_microsecond_timestamp (mrt_header rec) of None \<Rightarrow> True | Some us \<Rightarrow> us < 1000000"
    and "\<forall>el \<in> set (fst (record_to_elems kit (elementor d) rec)). \<exists>m e.
           el_timestamp el = Finite False m e
           \<and> \<bar>f64_val (Finite False m e) - real (header_micros (mrt_header rec)) / 1000000\<bar> < 1 / 4000000"
  shows "sint (r_timestamp_us r) = int (header_micros (mrt_header rec))"
proof -
  let ?h = "mrt_header rec"
  define s u where "s = unat (h_timestamp ?h)"
    and "u = (case h_microsecond_timestamp ?h of None \<Rightarrow> 0 | Some us \<Rightarrow> unat us)"
  have s: "s < 2 ^ 32" using unsigned_less [of "h_timestamp ?h"] by (simp add: s_def)
  have u: "u < 1000000"
    using assms(2) by (auto simp: u_def word_less_nat_alt split: option.splits)
  have hm: "header_micros ?h = s * 1000000 + u" by (simp add: header_micros_def s_def u_def)
  with s u have small: "header_micros ?h < 2 ^ 63" by simp
  have "r_timestamp_us r = of_nat (header_micros ?h)"
  proof (cases "\<exists>el \<in> set (fst (record_to_elems kit (elementor d) rec)).
      r = row_from_elem kit el (view_name d)")
    case True
    then obtain el where el: "el \<in> set (fst (record_to_elems kit (elementor d) rec))"
      "r = row_from_elem kit el (view_name d)" by blast
    from assms(3) el(1) obtain m e where me: "el_timestamp el = Finite False m e"
      "\<bar>f64_val (Finite False m e) - real (header_micros ?h) / 1000000\<bar> < 1 / 4000000"
      by blast
    have "real (header_micros ?h) / 1000000 = real s + real u / 1000000" by (simp add: hm)
    with me(2) have
      "\<bar>f64_val (Finite False m e) - (real s + real u / 1000000)\<bar> < 1 / 4000000"
      by (simp only:)
    from ts_to_micros_near [OF s u this] el(2) me(1) hm show ?thesis
      by (simp add: row_from_elem_fields)
  next
    case False
    with assms(1) have "r_timestamp_us r = state_change_ts ?h"
      by (auto simp: record_rows_def split: mrt_message.splits prod.splits)
    then show ?thesis by (simp add: state_change_ts_eq)
  qed
  then show ?thesis using small by (simp add: sint_of_nat_small)
qed

definition tiny_kit :: "(unit, unit) bgpkit" where
  "tiny_kit = \<lparr>parse_mrt_record = Ret (Inl EofExpected), elementor_new = (),
     set_peer_table = (\<lambda>_ _. ()), record_to_elems = (\<lambda>_ _. ([], ())),
     to_u32_vec_opt = (\<lambda>_ _. None), get_origin_asn_opt = (\<lambda>_. None),
     community_to_string = (\<lambda>_. []), show_parser_error = (\<lambda>_. [])\<rparr>"

theorem record_rows_timestamp_witness:
  "sint (r_timestamp_us (hd (fst (record_rows tiny_kit (decoder_new tiny_kit)
     \<lparr>mrt_header = \<lparr>h_timestamp = 1751155200, h_microsecond_timestamp = Some 250000, h_rest = ()\<rparr>,
      mrt_message = Bgp4MpStateChange \<lparr>sc_peer_ip = V4 1, sc_peer_asn = 2, sc_old_state = 3,
        sc_new_state = 4\<rparr>\<rparr>)))) = 1751155200250000"
  (is "sint (r_timestamp_us (hd (fst (record_rows _ _ ?rec)))) = _")
proof -
  have "hd (fst (record_rows tiny_kit (decoder_new tiny_kit) ?rec))
      \<in> set (fst (record_rows tiny_kit (decoder_new tiny_kit) ?rec))"
    by (simp add: record_rows_def)
  from record_rows_timestamp [OF this] show ?thesis
    by (simp add: tiny_kit_def header_micros_def)
qed

end
