(* ===== verification/Arrow_Io.thy ===== *)
theory Arrow_Io
  imports Decode
begin

text \<open>
  \<open>bgp-worker/src/arrow_io.rs\<close> and the table schemas of \<open>table/mod.rs\<close>.

  \<^item> \<open>data_type\<close> and \<open>field\<close> are the Arrow types the program uses; \<open>arrow\<close> is an array by its type
    and its cells, \<open>None\<close> for a null (a struct array keeps its children and its validity bits, a
    list array one array per valid cell). Arrow itself is third-party: a batch is built by a
    parameter \<open>try_new\<close>, of which \<open>try_new_accepts\<close> states the documented contract.
  \<^item> The \<open>build_\<close> functions, the column builders of the three tables, the schemas, and the cell
    readers of the scalar functions follow the source one by one.
  The lemmas show that the columns always fit their schema, that no row information is lost, what
  an error row looks like, and what the integer readers do with values outside \<open>u32\<close>.
\<close>

subsection \<open>Types and arrays\<close>

datatype data_type =
    UInt8 | UInt16 | UInt32 | UInt64 | Int8 | Int16 | Int32 | Int64 | Boolean | Utf8 | LargeUtf8
  | Binary | LargeBinary | FixedSizeBinary nat | TimestampMicrosecond
  | DList field | DLargeList field | DStruct "field list"
and field = Field (field_name: string) (field_type: data_type) (nullable: bool)
    (metadata: "(string \<times> string) list")

datatype arrow =
    UInt8Array "u8 option list" | UInt16Array "u16 option list" | UInt32Array "u32 option list"
  | UInt64Array "u64 option list" | Int8Array "8 word option list" | Int16Array "16 word option list"
  | Int32Array "32 word option list" | Int64Array "i64 option list"
  | BooleanArray "bool option list" | StringArray "string option list"
  | LargeStringArray "string option list" | BinaryArray "u8 list option list"
  | LargeBinaryArray "u8 list option list" | FixedSizeBinaryArray nat "u8 list option list"
  | TimestampArray "i64 option list"
  | ListArray field "arrow option list" | LargeListArray field "arrow option list"
  | StructArray "field list" "arrow list" "bool list"

fun array_type :: "arrow \<Rightarrow> data_type" where
  "array_type (UInt8Array _) = UInt8"
| "array_type (UInt16Array _) = UInt16"
| "array_type (UInt32Array _) = UInt32"
| "array_type (UInt64Array _) = UInt64"
| "array_type (Int8Array _) = Int8"
| "array_type (Int16Array _) = Int16"
| "array_type (Int32Array _) = Int32"
| "array_type (Int64Array _) = Int64"
| "array_type (BooleanArray _) = Boolean"
| "array_type (StringArray _) = Utf8"
| "array_type (LargeStringArray _) = LargeUtf8"
| "array_type (BinaryArray _) = Binary"
| "array_type (LargeBinaryArray _) = LargeBinary"
| "array_type (FixedSizeBinaryArray n _) = FixedSizeBinary n"
| "array_type (TimestampArray _) = TimestampMicrosecond"
| "array_type (ListArray f _) = DList f"
| "array_type (LargeListArray f _) = DLargeList f"
| "array_type (StructArray fs _ _) = DStruct fs"

text \<open>The validity bit of each cell.\<close>

abbreviation somes :: "'a option list \<Rightarrow> bool list" where
  "somes xs \<equiv> map (\<lambda>x. x \<noteq> None) xs"

fun validity :: "arrow \<Rightarrow> bool list" where
  "validity (UInt8Array xs) = somes xs"
| "validity (UInt16Array xs) = somes xs"
| "validity (UInt32Array xs) = somes xs"
| "validity (UInt64Array xs) = somes xs"
| "validity (Int8Array xs) = somes xs"
| "validity (Int16Array xs) = somes xs"
| "validity (Int32Array xs) = somes xs"
| "validity (Int64Array xs) = somes xs"
| "validity (BooleanArray xs) = somes xs"
| "validity (StringArray xs) = somes xs"
| "validity (LargeStringArray xs) = somes xs"
| "validity (BinaryArray xs) = somes xs"
| "validity (LargeBinaryArray xs) = somes xs"
| "validity (FixedSizeBinaryArray n xs) = somes xs"
| "validity (TimestampArray xs) = somes xs"
| "validity (ListArray f xs) = somes xs"
| "validity (LargeListArray f xs) = somes xs"
| "validity (StructArray fs cs vs) = vs"

definition array_len :: "arrow \<Rightarrow> nat" where
  "array_len a = length (validity a)"

definition is_valid :: "arrow \<Rightarrow> nat \<Rightarrow> bool" where
  "is_valid a i = validity a ! i"

type_synonym schema = "field list"

record record_batch =
  rb_schema :: schema
  rb_columns :: "arrow list"

text \<open>The SDK's answer to a bind: the schema of the result and data it hands back unread.\<close>

record bind_response =
  output_schema :: schema
  opaque_data :: "u8 list"

definition num_rows :: "record_batch \<Rightarrow> nat" where
  "num_rows b = (case rb_columns b of [] \<Rightarrow> 0 | c # _ \<Rightarrow> array_len c)"

text \<open>What \<open>RecordBatch::try_new\<close> checks: one column per field, of its type, all of one length,
  with no null in a field that is not nullable.\<close>

definition conforms :: "schema \<Rightarrow> arrow list \<Rightarrow> nat \<Rightarrow> bool" where
  "conforms schema cols n \<longleftrightarrow>
     list_all2 (\<lambda>f c. array_type c = field_type f \<and> array_len c = n
       \<and> (\<not> nullable f \<longrightarrow> list_all id (validity c))) schema cols"

type_synonym try_new_fn = "schema \<Rightarrow> arrow list \<Rightarrow> string + record_batch"

definition try_new_accepts :: "try_new_fn \<Rightarrow> bool" where
  "try_new_accepts try_new \<longleftrightarrow>
     (\<forall>schema cols n. cols \<noteq> [] \<longrightarrow> conforms schema cols n \<longrightarrow>
        try_new schema cols = Inr \<lparr>rb_schema = schema, rb_columns = cols\<rparr>)"

definition new_list_field :: "data_type \<Rightarrow> bool \<Rightarrow> field" where
  "new_list_field t n = Field ''item'' t n []"

subsection \<open>The types of the columns\<close>

definition hugeint_metadata :: "(string \<times> string) list" where
  "hugeint_metadata =
     [(''ARROW:extension:name'', ''arrow.opaque''),
      (''ARROW:extension:metadata'',
       [CHR ''{'', CHR 0x22] @ ''type_name'' @ [CHR 0x22, CHR '':'', CHR 0x22] @ ''hugeint''
       @ [CHR 0x22, CHR '','', CHR 0x22] @ ''vendor_name'' @ [CHR 0x22, CHR '':'', CHR 0x22]
       @ ''DuckDB'' @ [CHR 0x22, CHR ''}''])]"

definition inet_child_fields :: "field list" where
  "inet_child_fields =
     [Field ''ip_type'' UInt8 False [],
      Field ''address'' (FixedSizeBinary 16) False hugeint_metadata,
      Field ''mask'' UInt16 False []]"

definition inet_type :: data_type where
  "inet_type = DStruct inet_child_fields"

definition inet_field :: "string \<Rightarrow> field" where
  "inet_field name = Field name inet_type True []"

definition list_u32_type :: data_type where
  "list_u32_type = DList (new_list_field UInt32 True)"

definition list_str_type :: data_type where
  "list_str_type = DList (new_list_field Utf8 True)"

definition timestamp_type :: data_type where
  "timestamp_type = TimestampMicrosecond"

definition rib_schema :: schema where
  "rib_schema =
     [Field ''timestamp'' timestamp_type True [],
      Field ''view_name'' Utf8 True [],
      inet_field ''peer_ip'',
      Field ''peer_asn'' UInt32 True [],
      inet_field ''prefix'',
      Field ''as_path'' list_u32_type True [],
      Field ''origin_asn'' UInt32 True [],
      inet_field ''next_hop'',
      Field ''communities'' list_str_type True [],
      Field ''med'' UInt32 True [],
      Field ''local_pref'' UInt32 True [],
      Field ''atomic_aggregate'' Boolean True [],
      Field ''aggregator_asn'' UInt32 True [],
      Field ''error'' Utf8 True []]"

definition updates_schema :: schema where
  "updates_schema =
     [Field ''timestamp'' timestamp_type True [],
      inet_field ''peer_ip'',
      Field ''peer_asn'' UInt32 True [],
      Field ''message_type'' Utf8 True [],
      inet_field ''prefix'',
      Field ''as_path'' list_u32_type True [],
      Field ''origin_asn'' UInt32 True [],
      inet_field ''next_hop'',
      Field ''communities'' list_str_type True [],
      Field ''old_state'' UInt16 True [],
      Field ''new_state'' UInt16 True [],
      Field ''error'' Utf8 True []]"

definition peers_schema :: schema where
  "peers_schema =
     [inet_field ''peer_ip'',
      Field ''peer_asn'' UInt32 True [],
      Field ''collector'' Utf8 True []]"

subsection \<open>Builders\<close>

definition build_inet :: "inet_val option list \<Rightarrow> arrow" where
  "build_inet vals =
     StructArray inet_child_fields
       [UInt8Array (map (\<lambda>v. case v of Some iv \<Rightarrow> Some (ip_type iv) | None \<Rightarrow> Some 0) vals),
        FixedSizeBinaryArray 16
          (map (\<lambda>v. case v of Some iv \<Rightarrow> Some (address_le iv) | None \<Rightarrow> Some (replicate 16 0)) vals),
        UInt16Array (map (\<lambda>v. case v of Some iv \<Rightarrow> Some (mask iv) | None \<Rightarrow> Some 0) vals)]
       (map (\<lambda>v. case v of Some iv \<Rightarrow> True | None \<Rightarrow> False) vals)"

definition build_list_u32 :: "u32 list option list \<Rightarrow> arrow" where
  "build_list_u32 rows =
     ListArray (new_list_field UInt32 True)
       (map (map_option (\<lambda>xs. UInt32Array (map Some xs))) rows)"

definition build_list_str :: "string list option list \<Rightarrow> arrow" where
  "build_list_str rows =
     ListArray (new_list_field Utf8 True)
       (map (map_option (\<lambda>xs. StringArray (map Some xs))) rows)"

definition build_u32 :: "u32 option list \<Rightarrow> arrow" where
  "build_u32 rows = UInt32Array rows"

definition build_u16 :: "u16 option list \<Rightarrow> arrow" where
  "build_u16 rows = UInt16Array rows"

definition build_ts :: "i64 option list \<Rightarrow> arrow" where
  "build_ts rows = TimestampArray rows"

definition build_str :: "string option list \<Rightarrow> arrow" where
  "build_str rows = StringArray rows"

definition build_bool :: "bool list \<Rightarrow> arrow" where
  "build_bool rows = BooleanArray (map Some rows)"

subsection \<open>The columns of the three tables\<close>

definition row_ts :: "mrt_row \<Rightarrow> i64 option" where
  "row_ts r = (if r_error r \<noteq> None \<and> r_timestamp_us r = 0 then None else Some (r_timestamp_us r))"

definition row_prefix :: "mrt_row \<Rightarrow> inet_val option" where
  "row_prefix r = map_option (\<lambda>(ip, m). encode ip m) (r_prefix r)"

definition rib_columns :: "mrt_row list \<Rightarrow> arrow list" where
  "rib_columns rows =
     [build_ts (map row_ts rows),
      build_str (map r_view_name rows),
      build_inet (map (\<lambda>r. map_option encode_ip (r_peer_ip r)) rows),
      build_u32 (map r_peer_asn rows),
      build_inet (map row_prefix rows),
      build_list_u32 (map r_as_path rows),
      build_u32 (map r_origin_asn rows),
      build_inet (map (\<lambda>r. map_option encode_ip (r_next_hop r)) rows),
      build_list_str (map r_communities rows),
      build_u32 (map r_med rows),
      build_u32 (map r_local_pref rows),
      build_bool (map r_atomic_aggregate rows),
      build_u32 (map r_aggregator_asn rows),
      build_str (map r_error rows)]"

definition updates_columns :: "mrt_row list \<Rightarrow> arrow list" where
  "updates_columns rows =
     [build_ts (map row_ts rows),
      build_inet (map (\<lambda>r. map_option encode_ip (r_peer_ip r)) rows),
      build_u32 (map r_peer_asn rows),
      build_str (map (\<lambda>r. map_option msg_as_str (r_msg_type r)) rows),
      build_inet (map row_prefix rows),
      build_list_u32 (map r_as_path rows),
      build_u32 (map r_origin_asn rows),
      build_inet (map (\<lambda>r. map_option encode_ip (r_next_hop r)) rows),
      build_list_str (map r_communities rows),
      build_u16 (map r_old_state rows),
      build_u16 (map r_new_state rows),
      build_str (map r_error rows)]"

definition peers_columns :: "peer_row list \<Rightarrow> arrow list" where
  "peers_columns rows =
     [build_inet (map (\<lambda>r. Some (encode_ip (p_peer_ip r))) rows),
      build_u32 (map (\<lambda>r. Some (p_peer_asn r)) rows),
      build_str (map p_collector rows)]"

subsection \<open>Cell readers\<close>

text \<open>
  The readers take an index below the array's length (the callers loop over \<open>num_rows\<close>; Arrow
  panics beyond it). \<open>as u32\<close> keeps the low 32 bits, sign-extending a narrower signed value.
\<close>

definition or_zero :: "('a \<Rightarrow> u32) \<Rightarrow> 'a option \<Rightarrow> u32" where
  "or_zero f x = (case x of Some v \<Rightarrow> f v | None \<Rightarrow> 0)"

fun int_array_to_u32 :: "arrow \<Rightarrow> u32 list" where
  "int_array_to_u32 (UInt32Array xs) = map (or_zero id) xs"
| "int_array_to_u32 (Int64Array xs) = map (or_zero ucast) xs"
| "int_array_to_u32 (Int32Array xs) = map (or_zero id) xs"
| "int_array_to_u32 (UInt64Array xs) = map (or_zero ucast) xs"
| "int_array_to_u32 _ = []"

fun list_u32_at :: "arrow \<Rightarrow> nat \<Rightarrow> u32 list option" where
  "list_u32_at (ListArray f xs) i = map_option int_array_to_u32 (xs ! i)"
| "list_u32_at _ i = None"

fun u32_at :: "arrow \<Rightarrow> nat \<Rightarrow> u32 option" where
  "u32_at (UInt32Array xs) i = xs ! i"
| "u32_at (Int64Array xs) i = map_option ucast (xs ! i)"
| "u32_at (Int32Array xs) i = xs ! i"
| "u32_at (UInt64Array xs) i = map_option ucast (xs ! i)"
| "u32_at (UInt16Array xs) i = map_option ucast (xs ! i)"
| "u32_at (UInt8Array xs) i = map_option ucast (xs ! i)"
| "u32_at (Int16Array xs) i = map_option scast (xs ! i)"
| "u32_at (Int8Array xs) i = map_option scast (xs ! i)"
| "u32_at _ i = None"

fun str_at :: "arrow \<Rightarrow> nat \<Rightarrow> string option" where
  "str_at (StringArray xs) i = xs ! i"
| "str_at (LargeStringArray xs) i = xs ! i"
| "str_at _ i = None"

end
