(* ===== verification/Options.thy ===== *)
theory Options
  imports Cloud Arrow_Io
begin

text \<open>
  \<open>bgp-worker/src/options.rs\<close>: the overloaded \<open>src\<close> argument, the \<open>strict\<close> switch, the object-store
  overrides and the argument specifications shared by the table functions.

  \<open>arguments\<close> is the SDK's \<open>Arguments\<close>, given by the four accessors the code calls. The lemmas show
  what each form of \<open>src\<close> becomes, that only declared options are read, and how the overrides and the
  secret's options treat the TLS switch.
\<close>

record arguments =
  const_str :: "nat \<Rightarrow> string option"
  arg_at :: "nat \<Rightarrow> arrow option"
  named_bool :: "string \<Rightarrow> bool option"
  named_str :: "string \<Rightarrow> string option"

datatype src = Paths "string list" | Bytes "u8 list"

subsection \<open>The source argument\<close>

text \<open>The binary cell at row 0, when the array is binary and the cell is not null.\<close>

fun binary_cell :: "arrow \<Rightarrow> u8 list option" where
  "binary_cell (BinaryArray xs) = xs ! 0"
| "binary_cell (LargeBinaryArray xs) = xs ! 0"
| "binary_cell _ = None"

text \<open>\<open>l.value(0)\<close>: a null cell gives an empty slice of the child type.\<close>

definition empty_child :: "field \<Rightarrow> arrow" where
  "empty_child f =
     (case field_type f of Utf8 \<Rightarrow> StringArray [] | LargeUtf8 \<Rightarrow> LargeStringArray []
      | _ \<Rightarrow> BooleanArray [])"

fun list_cell :: "arrow \<Rightarrow> arrow option" where
  "list_cell (ListArray f xs) = Some (case xs ! 0 of Some a \<Rightarrow> a | None \<Rightarrow> empty_child f)"
| "list_cell (LargeListArray f xs) = Some (case xs ! 0 of Some a \<Rightarrow> a | None \<Rightarrow> empty_child f)"
| "list_cell _ = None"

fun string_elems :: "arrow \<Rightarrow> string list option" where
  "string_elems (StringArray xs) = Some (List.map_filter id xs)"
| "string_elems (LargeStringArray xs) = Some (List.map_filter id xs)"
| "string_elems _ = None"

definition source :: "arguments \<Rightarrow> nat \<Rightarrow> src rpc_result" where
  "source args pos =
     (case const_str args pos of
        Some s \<Rightarrow> Inr (Paths [s])
      | None \<Rightarrow>
          (case arg_at args pos of
             None \<Rightarrow> Inl (ValueError ''a source path, list of paths, or BLOB of MRT bytes is required'')
           | Some arr \<Rightarrow>
               (case binary_cell arr of
                  Some b \<Rightarrow> Inr (Bytes b)
                | None \<Rightarrow>
                    (case list_cell arr of
                       None \<Rightarrow> Inl (ValueError
                         ''src must be a VARCHAR path, a LIST(VARCHAR), or a BLOB of MRT bytes'')
                     | Some elems \<Rightarrow>
                         (case string_elems elems of
                            None \<Rightarrow> Inl (ValueError ''path list elements must be VARCHAR'')
                          | Some out \<Rightarrow>
                              if out = [] then Inl (ValueError ''src path list is empty'')
                              else Inr (Paths out))))))"

definition source_paths :: "arguments \<Rightarrow> nat \<Rightarrow> string list" where
  "source_paths args pos = (case source args pos of Inr (Paths p) \<Rightarrow> p | _ \<Rightarrow> [])"

subsection \<open>Switches and overrides\<close>

definition strict_option :: "arguments \<Rightarrow> bool" where
  "strict_option args = (case named_bool args ''strict'' of Some b \<Rightarrow> b | None \<Rightarrow> False)"

definition use_ssl_option :: "arguments \<Rightarrow> bool option" where
  "use_ssl_option args =
     (case named_bool args ''use_ssl'' of
        Some b \<Rightarrow> Some b
      | None \<Rightarrow> Option.bind (named_str args ''use_ssl'') parse_bool)"

definition cloud_overrides :: "arguments \<Rightarrow> overrides" where
  "cloud_overrides args =
     (let use_ssl = use_ssl_option args
      in opt_push ''aws_endpoint''
           (map_option (\<lambda>ep. normalize_endpoint ep use_ssl) (named_str args ''endpoint''))
       @ opt_push ''aws_region'' (named_str args ''region'')
       @ (case named_str args ''url_style'' of
            None \<Rightarrow> []
          | Some s \<Rightarrow>
              if eq_ignore_ascii_case s ''path''
              then [(''aws_virtual_hosted_style_request'', ''false'')] else [])
       @ (if use_ssl = Some False then [(''aws_allow_http'', ''true'')] else []))"

subsection \<open>Argument specifications\<close>

text \<open>\<open>ArgSpec::const_arg(name, position, type, doc)\<close> and \<open>ArgSpec::column_typed\<close>.\<close>

datatype arg_type = NamedType string | ColumnType data_type

record arg_spec =
  as_name :: string
  as_position :: int
  as_type :: arg_type
  as_doc :: string

definition const_arg :: "string \<Rightarrow> int \<Rightarrow> string \<Rightarrow> string \<Rightarrow> arg_spec" where
  "const_arg name pos ty doc =
     \<lparr>as_name = name, as_position = pos, as_type = NamedType ty, as_doc = doc\<rparr>"

definition column_typed :: "string \<Rightarrow> int \<Rightarrow> data_type \<Rightarrow> string \<Rightarrow> arg_spec" where
  "column_typed name pos ty doc =
     \<lparr>as_name = name, as_position = pos, as_type = ColumnType ty, as_doc = doc\<rparr>"

definition cloud_arg_specs :: "arg_spec list" where
  \<open>cloud_arg_specs =
     [const_arg ''endpoint'' (-1) ''varchar''
        (''Custom S3 endpoint for an `s3://` path (e.g. MinIO/R2 \'host:9000\'). Overrides any ''
         @ ''endpoint from a CREATE SECRET.''),
      const_arg ''region'' (-1) ''varchar''
        (''AWS region for an `s3://` path. Overrides the region from a CREATE SECRET.''),
      const_arg ''url_style'' (-1) ''varchar''
        (''S3 addressing for an `s3://` path: \'path\' (path-style, e.g. MinIO) or \'vhost\' (the ''
         @ ''default).''),
      const_arg ''use_ssl'' (-1) ''boolean''
        (''Whether to use TLS for an `s3://` path\'s custom endpoint (default true). Set false ''
         @ ''for a plain-HTTP endpoint such as a local MinIO.'')]\<close>

definition common_arg_specs :: "arg_spec list" where
  \<open>common_arg_specs =
     [const_arg ''strict'' (-1) ''boolean''
        (''When true, a malformed MRT record aborts the scan with an error. When false (the ''
         @ ''default), each bad record yields a row with NULL fields and a populated `error` ''
         @ ''column, so a truncated tail record never crashes the query.'')]
     @ cloud_arg_specs\<close>

subsection \<open>Lemmas\<close>

lemma source_paths_not_Nil: "source args pos = Inr (Paths ps) \<Longrightarrow> ps \<noteq> []"
  by (auto simp: source_def split: option.splits if_splits)

lemma source_error: "source args pos = Inl e \<Longrightarrow> \<exists>msg. e = ValueError msg"
  by (auto simp: source_def split: option.splits if_splits)

lemma source_list:
  assumes "const_str args pos = None" "arg_at args pos = Some (ListArray f [Some (StringArray xs)])"
  shows "source args pos =
    (if List.map_filter id xs = [] then Inl (ValueError ''src path list is empty'')
     else Inr (Paths (List.map_filter id xs)))"
  using assms by (simp add: source_def)

lemma override_value:
  "(''aws_endpoint'', v) \<in> set (cloud_overrides args) \<longleftrightarrow>
     (\<exists>ep. named_str args ''endpoint'' = Some ep \<and> v = normalize_endpoint ep (use_ssl_option args))"
  "(''aws_allow_http'', v) \<in> set (cloud_overrides args) \<longleftrightarrow>
     use_ssl_option args = Some False \<and> v = ''true''"
  by (auto simp: cloud_overrides_def opt_push_mem Let_def split: option.splits)

lemma secret_endpoint:
  "sec (url_text u) ''s3'' = Some flds \<Longrightarrow>
   (''aws_endpoint'', v) \<in> set (s3_options sec u) \<longleftrightarrow>
     (\<exists>ep. nonempty_field flds ''endpoint'' = Some ep
        \<and> v = normalize_endpoint ep (Option.bind (flds ''use_ssl'') parse_bool))"
  unfolding s3_options_def Let_def
  by (auto simp: opt_push_mem split: option.splits if_splits)

subsection \<open>Properties\<close>

definition with_args :: "(string \<Rightarrow> bool option) \<Rightarrow> (string \<Rightarrow> string option) \<Rightarrow> arguments" where
  "with_args nb ns = \<lparr>const_str = (\<lambda>_. None), arg_at = (\<lambda>_. None), named_bool = nb, named_str = ns\<rparr>"

text \<open>
  The \<open>src\<close> argument becomes what its form says: a path string is one path, a non-null blob its
  bytes, a list its non-null paths in order; a path list is never empty, every other form is refused
  with a value error, and \<open>source_paths\<close> is empty exactly when there are no paths to look at.
\<close>

theorem source_forms:
  "(case source args pos of
      Inl e \<Rightarrow> (\<exists>msg. e = ValueError msg) \<and> source_paths args pos = []
    | Inr (Paths ps) \<Rightarrow> ps \<noteq> [] \<and> source_paths args pos = ps
        \<and> (const_str args pos = Some (hd ps) \<and> ps = [hd ps]
           \<or> const_str args pos = None \<and> (\<exists>arr elems xs. arg_at args pos = Some arr \<and> list_cell arr = Some elems
               \<and> (elems = StringArray xs \<or> elems = LargeStringArray xs) \<and> ps = List.map_filter id xs))
    | Inr (Bytes b) \<Rightarrow> source_paths args pos = [] \<and> const_str args pos = None
        \<and> (\<exists>arr. arg_at args pos = Some arr \<and> binary_cell arr = Some b))"
  by (auto simp: source_def source_paths_def split: option.splits elim!: string_elems.elims)

text \<open>
  The options read are the options declared: two argument sets that agree on the named arguments
  of \<open>common_arg_specs\<close> give the same \<open>strict\<close> flag and the same overrides, and the overrides of
  functions that declare only the \<open>s3\<close> options (\<open>peers\<close>) do not depend on anything else either.
\<close>

theorem options_read_declared:
  assumes "\<forall>s \<in> set cloud_arg_specs. named_bool a (as_name s) = named_bool b (as_name s)
      \<and> named_str a (as_name s) = named_str b (as_name s)"
    and "named_bool a (as_name (hd common_arg_specs)) = named_bool b (as_name (hd common_arg_specs))"
  shows "cloud_overrides a = cloud_overrides b \<and> strict_option a = strict_option b"
proof -
  have "use_ssl_option a = use_ssl_option b"
    using assms(1) by (simp add: cloud_arg_specs_def const_arg_def use_ssl_option_def split: option.split)
  with assms show ?thesis
    by (simp add: cloud_arg_specs_def common_arg_specs_def const_arg_def cloud_overrides_def
        strict_option_def)
qed

theorem options_read_declared_witness:
  "strict_option (with_args (\<lambda>n. if n = ''strict'' then Some True else None) (\<lambda>_. None))
   = strict_option (with_args (\<lambda>n. if n = ''strict'' then Some True else None)
       (\<lambda>n. if n = ''other'' then Some ''x'' else None))"
  by (rule options_read_declared [THEN conjunct2])
    (simp_all add: with_args_def cloud_arg_specs_def common_arg_specs_def const_arg_def)

text \<open>
  The TLS switch of the call reaches the call's own endpoint only: a plain \<open>host:port\<close> endpoint
  given as an argument becomes \<open>http://\<close> exactly when \<open>use_ssl\<close> is false, and plain HTTP is then
  allowed; but the endpoint of a secret keeps the scheme of the secret's own switch, so with
  \<open>use_ssl => false\<close> in the call and no switch in the secret the store is still given
  \<open>https://\<close>, although the option is documented to override it.
\<close>

theorem use_ssl_scope:
  assumes "\<not> contains ''://'' ep" and "use_ssl_option args = Some False"
    and "sec (url_text u) ''s3'' = Some flds" and "flds ''endpoint'' = Some ep" and "ep \<noteq> []"
    and "flds ''use_ssl'' = None"
  shows "(named_str args ''endpoint'' = Some ep \<longrightarrow>
        (''aws_endpoint'', ''http://'' @ ep) \<in> set (cloud_overrides args)
        \<and> (''aws_allow_http'', ''true'') \<in> set (cloud_overrides args))
    \<and> (''aws_endpoint'', ''https://'' @ ep) \<in> set (s3_options sec u)
    \<and> (''aws_endpoint'', ''http://'' @ ep) \<notin> set (s3_options sec u)"
proof -
  have "normalize_endpoint ep (Some False) = ''http://'' @ ep" "normalize_endpoint ep None = ''https://'' @ ep"
    using assms(1) by (simp_all add: normalize_endpoint_def)
  moreover have "nonempty_field flds ''endpoint'' = Some ep"
    using assms(4,5) by (simp add: nonempty_field_def)
  ultimately show ?thesis
    using assms(2,6) secret_endpoint [where sec = sec and u = u, OF assms(3)] by (simp add: override_value)
qed

theorem use_ssl_scope_witness:
  "(''aws_endpoint'', ''https://minio:9000'')
     \<in> set (s3_options (\<lambda>_ _. Some [''endpoint'' \<mapsto> ''minio:9000'']) s3_sample)"
  using use_ssl_scope [of "''minio:9000''" "with_args [''use_ssl'' \<mapsto> False] (\<lambda>_. None)"
      "\<lambda>_ _. Some [''endpoint'' \<mapsto> ''minio:9000'']" s3_sample "[''endpoint'' \<mapsto> ''minio:9000'']"]
  by (simp add: contains_def with_args_def use_ssl_option_def)

end
