(* ===== verification/Json.thy ===== *)
theory Json
  imports Rust_Str
begin

text \<open>
  What a JSON text says (RFC 8259), for the texts the program writes: strings, arrays and objects, with
  white space between tokens and the two-character escapes. Numbers, the three literals and \<open>\u\<close>
  escapes do not occur and are refused. This is the specification the builders of \<open>meta.rs\<close> are
  measured against, so nothing here maps to code. \<open>render\<close> is the compact text of a value; reading it
  gives the value back whenever its strings hold no raw control character.
\<close>

datatype json = JStr string | JArr "json list" | JObj "(string \<times> json) list"

abbreviation dq :: char where "dq \<equiv> CHR 0x22"
abbreviation backslash :: char where "backslash \<equiv> CHR 0x5C"

subsection \<open>Reading\<close>

definition json_ws :: "char \<Rightarrow> bool" where
  "json_ws c \<longleftrightarrow> c = CHR '' '' \<or> c = CHR 0x09 \<or> c = CHR 0x0A \<or> c = CHR 0x0D"

definition skip_ws :: "string \<Rightarrow> string" where
  "skip_ws = dropWhile json_ws"

text \<open>The control characters are those below 32, the ones with the three high bits clear.\<close>

fun control :: "char \<Rightarrow> bool" where
  "control (Char b0 b1 b2 b3 b4 b5 b6 b7) \<longleftrightarrow> \<not> b5 \<and> \<not> b6 \<and> \<not> b7"

lemma control_iff: "control c \<longleftrightarrow> (of_char c :: nat) < 32"
  by (cases c) (auto simp: of_char_def split: if_splits)

definition json_escape :: "char \<Rightarrow> char option" where
  "json_escape c =
     (if c = dq \<or> c = backslash \<or> c = CHR ''/'' then Some c
      else if c = CHR ''n'' then Some (CHR 0x0A)
      else if c = CHR ''t'' then Some (CHR 0x09)
      else if c = CHR ''r'' then Some (CHR 0x0D)
      else if c = CHR ''b'' then Some (CHR 0x08)
      else if c = CHR ''f'' then Some (CHR 0x0C) else None)"

text \<open>The characters of a string up to its closing quote, and the text behind it.\<close>

fun read_chars :: "string \<Rightarrow> (string \<times> string) option" where
  "read_chars [] = None"
| "read_chars (c # s) =
     (if c = dq then Some ([], s)
      else if c = backslash then
        (case s of
           [] \<Rightarrow> None
         | e # s' \<Rightarrow>
             (case json_escape e of
                None \<Rightarrow> None
              | Some d \<Rightarrow> map_option (apfst (Cons d)) (read_chars s')))
      else if control c then None
      else map_option (apfst (Cons c)) (read_chars s))"

text \<open>The text behind the given character, white space before it skipped.\<close>

definition expect :: "char \<Rightarrow> string \<Rightarrow> string option" where
  "expect c s = (case skip_ws s of x # t \<Rightarrow> if x = c then Some t else None | [] \<Rightarrow> None)"

definition read_key :: "string \<Rightarrow> (string \<times> string) option" where
  "read_key s = Option.bind (expect dq s) (\<lambda>t. Option.bind (read_chars t) (\<lambda>(k, u).
     map_option (Pair k) (expect (CHR '':'') u)))"

text \<open>The fuel bounds the nesting and the length of a list; \<open>parse_json\<close> gives more than any text needs.\<close>

fun read_value :: "nat \<Rightarrow> string \<Rightarrow> (json \<times> string) option"
  and read_elems :: "nat \<Rightarrow> string \<Rightarrow> (json list \<times> string) option"
  and read_members :: "nat \<Rightarrow> string \<Rightarrow> ((string \<times> json) list \<times> string) option" where
  "read_value 0 s = None"
| "read_value (Suc n) s =
     (case expect dq s of
        Some t \<Rightarrow> map_option (apfst JStr) (read_chars t)
      | None \<Rightarrow>
          (case expect (CHR ''['') s of
             Some t \<Rightarrow>
               (case expect (CHR '']'') t of
                  Some u \<Rightarrow> Some (JArr [], u)
                | None \<Rightarrow> map_option (apfst JArr) (read_elems n t))
           | None \<Rightarrow>
               (case expect (CHR ''{'') s of
                  None \<Rightarrow> None
                | Some t \<Rightarrow>
                    (case expect (CHR ''}'') t of
                       Some u \<Rightarrow> Some (JObj [], u)
                     | None \<Rightarrow> map_option (apfst JObj) (read_members n t)))))"
| "read_elems 0 s = None"
| "read_elems (Suc n) s =
     Option.bind (read_value n s) (\<lambda>(v, t).
       case expect (CHR '','') t of
         Some u \<Rightarrow> map_option (apfst (Cons v)) (read_elems n u)
       | None \<Rightarrow> map_option (Pair [v]) (expect (CHR '']'') t))"
| "read_members 0 s = None"
| "read_members (Suc n) s =
     Option.bind (read_key s) (\<lambda>(k, t). Option.bind (read_value n t) (\<lambda>(v, u).
       case expect (CHR '','') u of
         Some r \<Rightarrow> map_option (apfst (Cons (k, v))) (read_members n r)
       | None \<Rightarrow> map_option (Pair [(k, v)]) (expect (CHR ''}'') u)))"

definition parse_json :: "string \<Rightarrow> json option" where
  "parse_json s =
     (case read_value (Suc (length s)) s of
        Some (v, rest) \<Rightarrow> if skip_ws rest = [] then Some v else None
      | None \<Rightarrow> None)"

subsection \<open>Rendering\<close>

text \<open>Two ways to escape a string: the line feed escaped as well (\<open>True\<close>), or left as it is.\<close>

definition escape :: "bool \<Rightarrow> string \<Rightarrow> string" where
  "escape b s = concat (map (\<lambda>c. if c = dq \<or> c = backslash then [backslash, c]
                               else if b \<and> c = CHR 0x0A then [backslash, CHR ''n''] else [c]) s)"

definition text_string :: "bool \<Rightarrow> string \<Rightarrow> string" where
  "text_string b s = dq # escape b s @ [dq]"

fun render :: "bool \<Rightarrow> json \<Rightarrow> string" where
  "render b (JStr s) = text_string b s"
| "render b (JArr xs) = CHR ''['' # join '','' (map (render b) xs) @ '']''"
| "render b (JObj ms) =
     CHR ''{'' # join '','' (map (\<lambda>(k, v). text_string b k @ '':'' @ render b v) ms) @ ''}''"

text \<open>The strings that survive: no control character, or none but the line feed when that is escaped.\<close>

definition clean :: "bool \<Rightarrow> string \<Rightarrow> bool" where
  "clean b s = list_all (\<lambda>c. \<not> control c \<or> b \<and> c = CHR 0x0A) s"

fun clean_json :: "bool \<Rightarrow> json \<Rightarrow> bool" where
  "clean_json b (JStr s) = clean b s"
| "clean_json b (JArr xs) = list_all (clean_json b) xs"
| "clean_json b (JObj ms) = list_all (\<lambda>(k, v). clean b k \<and> clean_json b v) ms"

subsection \<open>Reading what is rendered\<close>

lemma expect_simps [simp]:
  "\<not> json_ws x \<Longrightarrow> expect c (x # t) = (if x = c then Some t else None)"
  "expect c [] = None"
  by (simp_all add: expect_def skip_ws_def)

lemma not_ws [simp]:
  "\<not> json_ws dq" "\<not> json_ws (CHR '','')" "\<not> json_ws (CHR '':'')" "\<not> json_ws (CHR ''['')"
  "\<not> json_ws (CHR '']'')" "\<not> json_ws (CHR ''{'')" "\<not> json_ws (CHR ''}'')"
  by (simp_all add: json_ws_def)

lemma read_chars_escape:
  "read_chars (escape b s @ dq # rest) = (if clean b s then Some (s, rest) else None)"
proof (induction s)
  case Nil
  show ?case by (simp add: escape_def clean_def)
next
  case (Cons c s)
  then show ?case by (auto simp: escape_def clean_def json_escape_def)
qed

lemma escape_empty [simp]: "escape b [] = []"
  by (simp add: escape_def)

fun fuel :: "json \<Rightarrow> nat" where
  "fuel (JStr s) = 1"
| "fuel (JArr xs) = Suc (length xs + sum_list (map fuel xs))"
| "fuel (JObj ms) = Suc (length ms + sum_list (map (\<lambda>(k, v). fuel v) ms))"

lemma render_head:
  "\<exists>c t. render b v = c # t \<and> c \<noteq> CHR '']'' \<and> c \<noteq> CHR ''}'' \<and> \<not> json_ws c"
  by (cases v) (auto simp: text_string_def)

lemma expect_render [simp]: "expect (CHR '']'') (render b v @ s) = None"
  using render_head [of b v] by auto

lemma fuel_pos: "0 < fuel v"
  by (cases v) simp_all

lemma read_elems_render:
  assumes "\<And>v n rest. v \<in> set xs \<Longrightarrow> fuel v \<le> n \<Longrightarrow>
      read_value n (render b v @ rest) = (if clean_json b v then Some (v, rest) else None)"
    and "xs \<noteq> []" "length xs + sum_list (map fuel xs) \<le> n"
  shows "read_elems n (join '','' (map (render b) xs) @ CHR '']'' # rest)
    = (if list_all (clean_json b) xs then Some (xs, rest) else None)"
  using assms
proof (induction xs arbitrary: n)
  case (Cons x xs)
  then obtain m where n: "n = Suc m" "fuel x \<le> m" by (cases n) auto
  have x: "read_value m (render b x @ t) = (if clean_json b x then Some (x, t) else None)" for t
    using Cons.prems(1) n by simp
  show ?case
  proof (cases xs)
    case Nil
    with n show ?thesis by (simp add: x)
  next
    case (Cons y ys)
    have "length xs + sum_list (map fuel xs) \<le> m" using Cons.prems(3) n by simp
    with Cons.IH [OF Cons.prems(1)] Cons
    have "read_elems m (join '','' (map (render b) xs) @ CHR '']'' # rest)
      = (if list_all (clean_json b) xs then Some (xs, rest) else None)" by simp
    with n Cons show ?thesis by (simp add: x)
  qed
qed simp

lemma read_key_render:
  "read_key (text_string b k @ CHR '':'' # t) = (if clean b k then Some (k, t) else None)"
  by (simp add: read_key_def text_string_def read_chars_escape)

lemma read_members_render:
  assumes "\<And>x n rest. x \<in> set ms \<Longrightarrow> fuel (snd x) \<le> n \<Longrightarrow>
      read_value n (render b (snd x) @ rest) = (if clean_json b (snd x) then Some (snd x, rest) else None)"
    and "ms \<noteq> []" "length ms + sum_list (map (\<lambda>(k, v). fuel v) ms) \<le> n"
  shows "read_members n
      (join '','' (map (\<lambda>(k, v). text_string b k @ '':'' @ render b v) ms) @ CHR ''}'' # rest)
    = (if list_all (\<lambda>(k, v). clean b k \<and> clean_json b v) ms then Some (ms, rest) else None)"
  using assms
proof (induction ms arbitrary: n)
  case (Cons x ms)
  obtain k v where kv: "x = (k, v)" by fastforce
  with Cons.prems obtain m where n: "n = Suc m" "fuel v \<le> m" by (cases n) auto
  have v: "read_value m (render b v @ t) = (if clean_json b v then Some (v, t) else None)" for t
    using Cons.prems(1) [of x m] kv n by simp
  show ?case
  proof (cases ms)
    case Nil
    with n kv show ?thesis by (simp add: v read_key_render)
  next
    case (Cons y ys)
    have "read_members m (join '','' (map (\<lambda>(k, v). text_string b k @ '':'' @ render b v) ms) @ CHR ''}'' # rest)
      = (if list_all (\<lambda>(k, v). clean b k \<and> clean_json b v) ms then Some (ms, rest) else None)"
      by (rule Cons.IH) (use Cons.prems Cons n kv in auto)
    with n kv Cons show ?thesis by (cases y) (simp add: v read_key_render)
  qed
qed simp

lemma read_value_render:
  "fuel v \<le> n \<Longrightarrow>
   read_value n (render b v @ rest) = (if clean_json b v then Some (v, rest) else None)"
proof (induction v arbitrary: n rest)
  case (JStr s)
  then show ?case by (cases n) (simp_all add: text_string_def read_chars_escape)
next
  case (JArr xs)
  then obtain m where n: "n = Suc m" "length xs + sum_list (map fuel xs) \<le> m" by (cases n) auto
  show ?case
  proof (cases xs)
    case Nil
    with n show ?thesis by simp
  next
    case (Cons y ys)
    then have "xs \<noteq> []" by simp
    from read_elems_render [OF JArr.IH this n(2)] n Cons
    show ?thesis by (cases ys) simp_all
  qed
next
  case (JObj ms)
  then obtain m where n: "n = Suc m" "length ms + sum_list (map (\<lambda>(k, v). fuel v) ms) \<le> m"
    by (cases n) auto
  show ?case
  proof (cases ms)
    case Nil
    with n show ?thesis by simp
  next
    case (Cons y ys)
    then have "ms \<noteq> []" by simp
    moreover have "read_value k (render b (snd x) @ t) = (if clean_json b (snd x) then Some (snd x, t) else None)"
      if "x \<in> set ms" "fuel (snd x) \<le> k" for x k t
      using JObj.IH [OF that(1)] that(2) by (cases x) simp
    ultimately have "read_members m
        (join '','' (map (\<lambda>(k, v). text_string b k @ '':'' @ render b v) ms) @ CHR ''}'' # rest)
      = (if list_all (\<lambda>(k, v). clean b k \<and> clean_json b v) ms then Some (ms, rest) else None)"
      using read_members_render n(2) by blast
    with n Cons show ?thesis by (cases ys) (auto simp: text_string_def split_beta)
  qed
qed

lemma length_join: "length (join [c] xs) = sum_list (map length xs) + (length xs - 1)"
  by (induction "[c]" xs rule: join.induct) simp_all

lemma fuel_le_length: "fuel v \<le> length (render b v)"
proof (induction v)
  case (JArr xs)
  then have "sum_list (map fuel xs) \<le> sum_list (map (length \<circ> render b) xs)"
    by (intro sum_list_mono) simp
  then show ?case by (simp add: length_join)
next
  case (JObj ms)
  have "sum_list (map (\<lambda>(k, v). fuel v) ms)
      \<le> sum_list (map (length \<circ> (\<lambda>(k, v). text_string b k @ '':'' @ render b v)) ms)"
    using JObj by (intro sum_list_mono) (fastforce simp: split_beta)
  then show ?case by (simp add: length_join)
qed (simp add: text_string_def)

theorem parse_render: "parse_json (render b v) = (if clean_json b v then Some v else None)"
  using read_value_render [of v "Suc (length (render b v))" b "[]"] fuel_le_length [of v b]
  by (simp add: parse_json_def skip_ws_def)

end
