(* ===== verification/Meta.thy ===== *)
theory Meta
  imports Arrow_Io Json
begin

text \<open>
  \<open>bgp-worker/src/meta.rs\<close>: the JSON builders of the discovery tags, the standard tags of an object,
  the DuckDB type of an address column and the two hexadecimal fixtures; with the parts of the SDK's
  \<open>FunctionMetadata\<close> the functions fill in (its other fields keep the SDK's defaults). The property
  says when each builder's text is JSON for the data it was given, against the reader of \<open>Json\<close>.
\<close>

subsection \<open>Fixtures\<close>

definition RIB_MRT_HEX :: string where
  "RIB_MRT_HEX =
     ''68608200000d00010000003b000000000000000302c0000201c00002010000fde902c6336407c633''
     @ ''64070000fdea030000000020010db80000000000000000000000010000fde968608200000d000400''
     @ ''000079000000003020010db8abcd00010002686082000064800e1c0002011020010db80000000000''
     @ ''00000000000001003020010db8abcd40031020010db8000000000000000000000001c0110e020300''
     @ ''00fde90000fbf40000fc58400101004005040000006480040400000000c0200c0000fde900000007''
     @ ''0000000968608200000d0002000000af0000000118cb007100020001686082000041800e0d000101''
     @ ''04c63364070018cb0071400304c6336407c0110e02030000fdea0000fc010000fc00400101004005''
     @ ''040000006480040400000000c00804fdea00c80000686082000054800e0d00010104c00002010018''
     @ ''cb0071400304c0000201c0111202040000fde90000fbf40000fbf40000fc00400101004005040000''
     @ ''006480040400000000c00804fde90064c0200c0000fde90000000100000002''"

definition UPD_MRT_HEX :: string where
  "UPD_MRT_HEX =
     ''68608200001100040000007f000000000000fde90000000000000001c000020100000000ffffffff''
     @ ''ffffffffffffffffffffffff00670200000050800e0d00010104c00002010018cb0071400304c000''
     @ ''0201c0110e02030000fde90000fbf40000fc00400101004005040000006480040400000000c00804''
     @ ''fde90064c0200c0000fde90000000100000002686082010011000400000098000000000000fde900''
     @ ''0000000000000220010db800000000000000000000000100000000000000000000000000000000ff''
     @ ''ffffffffffffffffffffffffffffff00680200000051800e1c0002011020010db800000000000000''
     @ ''0000000001003020010db8abcd40031020010db8000000000000000000000001c0110a02020000fd''
     @ ''e90000fc584001010040050400000064800404000000006860820200110004000000390000000000''
     @ ''00fde90000000000000001c000020100000000ffffffffffffffffffffffffffffffff0021020000''
     @ ''000a800f0700010118cb0071''"

subsection \<open>Builders\<close>

text \<open>The two nested \<open>esc\<close> functions: with and without the line feed.\<close>

definition esc :: "string \<Rightarrow> string" where
  "esc s = replace_char dq [backslash, dq] (replace_char backslash [backslash, backslash] s)"

definition esc_lines :: "string \<Rightarrow> string" where
  "esc_lines s = replace_char (CHR 0x0A) [backslash, CHR ''n''] (esc s)"

definition keyword_items :: "string \<Rightarrow> string list" where
  "keyword_items keywords = filter (\<lambda>k. k \<noteq> []) (map trim (split_on (CHR '','') keywords))"

definition keywords_json :: "string \<Rightarrow> string" where
  "keywords_json keywords =
     ''['' @ join '','' (map (\<lambda>k. [dq] @ esc k @ [dq]) (keyword_items keywords)) @ '']''"

definition agent_test_tasks_json :: "(string \<times> string \<times> string) list \<Rightarrow> string" where
  \<open>agent_test_tasks_json tasks =
     ''['' @ join '',''
       (map (\<lambda>(name, prompt, reference_sql).
          ''{"name":"'' @ esc_lines name @ ''","prompt":"'' @ esc_lines prompt
          @ ''","reference_sql":"'' @ esc_lines reference_sql @ ''"}'') tasks) @ '']''\<close>

definition INET_STRUCT_TYPE :: string where
  "INET_STRUCT_TYPE = ''STRUCT(ip_type UTINYINT, address HUGEINT, mask USMALLINT)''"

definition result_columns_schema_json :: "(string \<times> string \<times> string) list \<Rightarrow> string" where
  \<open>result_columns_schema_json cols =
     ''['' @ join '',''
       (map (\<lambda>(name, ty, desc).
          ''{"name":"'' @ esc name @ ''","type":"'' @ esc ty @ ''","description":"'' @ esc desc
          @ ''"}'') cols) @ '']''\<close>

definition example_queries_json :: "(string \<times> string) list \<Rightarrow> string" where
  \<open>example_queries_json examples =
     ''['' @ join '',''
       (map (\<lambda>(desc, sql). ''{"description":"'' @ esc desc @ ''","sql":"'' @ esc sql @ ''"}'') examples)
     @ '']''\<close>

definition object_tags :: "string \<Rightarrow> string \<Rightarrow> string \<Rightarrow> string \<Rightarrow> string \<Rightarrow> (string \<times> string) list" where
  "object_tags title description_llm description_md keywords category =
     [(''vgi.title'', title),
      (''vgi.doc_llm'', description_llm),
      (''vgi.doc_md'', description_md),
      (''vgi.keywords'', keywords_json keywords),
      (''vgi.category'', category)]"

subsection \<open>Function metadata\<close>

record function_example =
  ex_sql :: string
  ex_description :: string
  ex_expected_output :: "string option"

record function_metadata =
  md_description :: string
  md_return_type :: "data_type option"
  md_examples :: "function_example list"
  md_tags :: "(string \<times> string) list"

subsection \<open>Lemmas\<close>

lemma esc_escape: "esc s = escape False s" "esc_lines s = escape True s"
  by (induction s) (auto simp: esc_def esc_lines_def escape_def)

lemma quoted_text: "text_string b s = [dq] @ escape b s @ [dq]"
  by (simp add: text_string_def)

lemma keys_escape:
  "escape b ''name'' = ''name''" "escape b ''prompt'' = ''prompt''" "escape b ''type'' = ''type''"
  "escape b ''reference_sql'' = ''reference_sql''" "escape b ''description'' = ''description''"
  "escape b ''sql'' = ''sql''"
  by (simp_all add: escape_def)

lemma keys_clean:
  "clean b ''name''" "clean b ''prompt''" "clean b ''type''" "clean b ''reference_sql''"
  "clean b ''description''" "clean b ''sql''"
  by (simp_all add: clean_def)

lemma builders_render:
  "keywords_json k = render False (JArr (map JStr (keyword_items k)))"
  "agent_test_tasks_json tasks = render True (JArr (map (\<lambda>(n, p, r).
     JObj [(''name'', JStr n), (''prompt'', JStr p), (''reference_sql'', JStr r)]) tasks))"
  "result_columns_schema_json cols = render False (JArr (map (\<lambda>(n, t, d).
     JObj [(''name'', JStr n), (''type'', JStr t), (''description'', JStr d)]) cols))"
  "example_queries_json exs = render False (JArr (map (\<lambda>(d, s).
     JObj [(''description'', JStr d), (''sql'', JStr s)]) exs))"
  by (simp_all add: keywords_json_def agent_test_tasks_json_def result_columns_schema_json_def
      example_queries_json_def esc_escape text_string_def keys_escape comp_def case_prod_unfold)

lemma clean_builders:
  "clean_json False (JArr (map JStr ks)) = list_all (clean False) ks"
  "clean_json True (JArr (map (\<lambda>(n, p, r).
     JObj [(''name'', JStr n), (''prompt'', JStr p), (''reference_sql'', JStr r)]) tasks))
   = list_all (\<lambda>(n, p, r). clean True n \<and> clean True p \<and> clean True r) tasks"
  "clean_json False (JArr (map (\<lambda>(n, t, d).
     JObj [(''name'', JStr n), (''type'', JStr t), (''description'', JStr d)]) cols))
   = list_all (\<lambda>(n, t, d). clean False n \<and> clean False t \<and> clean False d) cols"
  "clean_json False (JArr (map (\<lambda>(d, s). JObj [(''description'', JStr d), (''sql'', JStr s)]) exs))
   = list_all (\<lambda>(d, s). clean False d \<and> clean False s) exs"
  by (simp_all add: list.pred_map comp_def case_prod_unfold keys_clean)

lemma clean_simps:
  "clean b []" "clean b (c # s) \<longleftrightarrow> (control c \<longrightarrow> b \<and> c = CHR 0x0A) \<and> clean b s"
  "clean b (s @ t) \<longleftrightarrow> clean b s \<and> clean b t"
  by (auto simp: clean_def)

lemma clean_fixtures: "clean b RIB_MRT_HEX" "clean b UPD_MRT_HEX"
  by (simp_all add: RIB_MRT_HEX_def UPD_MRT_HEX_def clean_simps)

text \<open>
  C37: the discovery tags are JSON for the data they describe: the text of each of the four builders
  parses to the array of its items, in order and with every string intact, exactly when the strings
  hold no raw control character. Only the task builder escapes line feeds, so only its strings may
  hold one; a line feed in a keyword, column or example text makes that tag invalid JSON.
\<close>

theorem tags_are_json:
  "parse_json (keywords_json k)
     = (if list_all (clean False) (keyword_items k) then Some (JArr (map JStr (keyword_items k))) else None)
   \<and> parse_json (agent_test_tasks_json tasks)
     = (if list_all (\<lambda>(n, p, r). clean True n \<and> clean True p \<and> clean True r) tasks
        then Some (JArr (map (\<lambda>(n, p, r).
          JObj [(''name'', JStr n), (''prompt'', JStr p), (''reference_sql'', JStr r)]) tasks)) else None)
   \<and> parse_json (result_columns_schema_json cols)
     = (if list_all (\<lambda>(n, t, d). clean False n \<and> clean False t \<and> clean False d) cols
        then Some (JArr (map (\<lambda>(n, t, d).
          JObj [(''name'', JStr n), (''type'', JStr t), (''description'', JStr d)]) cols)) else None)
   \<and> parse_json (example_queries_json exs)
     = (if list_all (\<lambda>(d, s). clean False d \<and> clean False s) exs
        then Some (JArr (map (\<lambda>(d, s). JObj [(''description'', JStr d), (''sql'', JStr s)]) exs)) else None)"
  unfolding builders_render parse_render clean_builders by (intro conjI refl)

end
