(* ===== verification/Arrow_Columns.thy ===== *)
theory Arrow_Columns
  imports Arrow_Io
begin

text \<open>
  What the column builders of \<open>arrow_io.rs\<close> guarantee: every table's columns have the number,
  types, lengths and nullability its schema declares, so building the batch cannot fail and no
  builder panics; the marshalling is injective on what the table shows; and the cells of an error
  row.
\<close>

text \<open>
  The conditions under which the struct, list and fixed-size builders of Arrow do not panic.
\<close>

fun well_typed :: "arrow \<Rightarrow> bool" where
  "well_typed (FixedSizeBinaryArray n xs) \<longleftrightarrow>
     list_all (\<lambda>x. case x of None \<Rightarrow> True | Some b \<Rightarrow> length b = n) xs"
| "well_typed (ListArray f xs) \<longleftrightarrow>
     list_all (\<lambda>x. case x of None \<Rightarrow> True | Some a \<Rightarrow> array_type a = field_type f \<and> well_typed a) xs"
| "well_typed (LargeListArray f xs) \<longleftrightarrow>
     list_all (\<lambda>x. case x of None \<Rightarrow> True | Some a \<Rightarrow> array_type a = field_type f \<and> well_typed a) xs"
| "well_typed (StructArray fs cs vs) \<longleftrightarrow> conforms fs cs (length vs) \<and> list_all well_typed cs"
| "well_typed _ \<longleftrightarrow> True"

lemma somes_eq_case: "map (\<lambda>v. case v of None \<Rightarrow> False | Some x \<Rightarrow> True) xs = somes xs"
  by (auto split: option.split)

lemma length_validity_build [simp]:
  "length (validity (build_ts xs)) = length xs"
  "length (validity (build_str ys)) = length ys"
  "length (validity (build_u32 zs)) = length zs"
  "length (validity (build_u16 us)) = length us"
  "length (validity (build_bool bs)) = length bs"
  "length (validity (build_inet vs)) = length vs"
  "length (validity (build_list_u32 ls)) = length ls"
  "length (validity (build_list_str ss)) = length ss"
  by (simp_all add: build_ts_def build_str_def build_u32_def build_u16_def build_bool_def
      build_inet_def build_list_u32_def build_list_str_def)

lemma array_type_build [simp]:
  "array_type (build_ts xs) = timestamp_type"
  "array_type (build_str ys) = Utf8"
  "array_type (build_u32 zs) = UInt32"
  "array_type (build_u16 us) = UInt16"
  "array_type (build_bool bs) = Boolean"
  "array_type (build_inet vs) = inet_type"
  "array_type (build_list_u32 ls) = list_u32_type"
  "array_type (build_list_str ss) = list_str_type"
  by (simp_all add: build_ts_def build_str_def build_u32_def build_u16_def build_bool_def
      build_inet_def build_list_u32_def build_list_str_def timestamp_type_def inet_type_def
      list_u32_type_def list_str_type_def)

lemma well_typed_simple [simp]:
  "well_typed (build_ts xs)" "well_typed (build_str ys)" "well_typed (build_u32 zs)"
  "well_typed (build_u16 us)" "well_typed (build_bool bs)"
  "well_typed (build_list_u32 ls)" "well_typed (build_list_str ss)"
  by (auto simp: build_ts_def build_str_def build_u32_def build_u16_def build_bool_def
      build_list_u32_def build_list_str_def new_list_field_def list_all_iff split: option.splits)

lemma well_typed_inet:
  assumes "\<And>v. v \<in> set vals \<Longrightarrow> pred_option (\<lambda>iv. length (address_le iv) = 16) v"
  shows "well_typed (build_inet vals)"
  using assms
  by (auto simp: build_inet_def conforms_def inet_child_fields_def array_len_def list_all_iff
      dest!: assms split: option.splits)

lemma encode_ip_len [simp]: "length (address_le (encode_ip ip)) = 16"
  by (cases ip) (simp_all add: encode_fields)

lemma well_typed_inet_columns [simp]:
  "well_typed (build_inet (map (\<lambda>r. map_option encode_ip (f r)) rows))"
  "well_typed (build_inet (map row_prefix rows))"
  "well_typed (build_inet (map (\<lambda>r. Some (encode_ip (g r))) prows))"
  by (rule well_typed_inet; auto simp: row_prefix_def encode_fields option.pred_map
      split: prod.splits simp: pred_option_def)+

lemmas schema_defs =
  rib_schema_def updates_schema_def peers_schema_def inet_field_def

lemmas columns_defs = rib_columns_def updates_columns_def peers_columns_def

lemma conforms_tables:
  "conforms rib_schema (rib_columns rows) (length rows)"
  "conforms updates_schema (updates_columns rows) (length rows)"
  "conforms peers_schema (peers_columns prows) (length prows)"
  by (simp_all add: conforms_def schema_defs columns_defs array_len_def)

lemma try_new_acceptsD:
  "try_new_accepts try_new \<Longrightarrow> cols \<noteq> [] \<Longrightarrow> conforms schema cols n \<Longrightarrow>
   try_new schema cols = Inr \<lparr>rb_schema = schema, rb_columns = cols\<rparr>"
  unfolding try_new_accepts_def by blast

lemma columns_nonempty: "rib_columns rows \<noteq> []" "updates_columns rows \<noteq> []" "peers_columns prows \<noteq> []"
  by (simp_all add: columns_defs)

lemma try_new_tables:
  assumes "try_new_accepts try_new"
  shows "try_new rib_schema (rib_columns rows) = Inr \<lparr>rb_schema = rib_schema, rb_columns = rib_columns rows\<rparr>"
    "try_new updates_schema (updates_columns rows)
       = Inr \<lparr>rb_schema = updates_schema, rb_columns = updates_columns rows\<rparr>"
    "try_new peers_schema (peers_columns prows)
       = Inr \<lparr>rb_schema = peers_schema, rb_columns = peers_columns prows\<rparr>"
  by (simp_all add: try_new_acceptsD [OF assms _ conforms_tables(1)] columns_nonempty
      try_new_acceptsD [OF assms _ conforms_tables(2)] try_new_acceptsD [OF assms _ conforms_tables(3)])

lemma array_len_tables:
  "list_all (\<lambda>c. array_len c = length rows) (rib_columns rows)"
  "list_all (\<lambda>c. array_len c = length rows) (updates_columns rows)"
  by (simp_all add: columns_defs array_len_def)

lemma well_typed_tables:
  "list_all well_typed (rib_columns rows)" "list_all well_typed (updates_columns rows)"
  "list_all well_typed (peers_columns prows)"
  by (simp_all add: columns_defs)

subsection \<open>Injectivity\<close>

lemma build_inet_inject: "build_inet a = build_inet b \<longleftrightarrow> a = b"
proof
  assume "build_inet a = build_inet b"
  then show "a = b"
  proof (induction a arbitrary: b)
    case Nil
    then show ?case by (auto simp: build_inet_def)
  next
    case (Cons x a)
    then obtain y b' where b: "b = y # b'" by (cases b) (auto simp: build_inet_def)
    with Cons.prems have "build_inet a = build_inet b'" by (simp add: build_inet_def)
    moreover have "x = y"
      using Cons.prems b by (cases x; cases y) (auto simp: build_inet_def)
    ultimately show ?case using Cons.IH b by simp
  qed
qed simp

lemma inj_list_cells: "inj (map_option (\<lambda>xs. UInt32Array (map Some xs)))"
  "inj (map_option (\<lambda>xs. StringArray (map Some xs)))"
  by (intro option.inj_map injI; simp add: inj_map_eq_map)+

lemma build_inject:
  "build_ts xs = build_ts xs' \<longleftrightarrow> xs = xs'"
  "build_str ys = build_str ys' \<longleftrightarrow> ys = ys'"
  "build_u32 zs = build_u32 zs' \<longleftrightarrow> zs = zs'"
  "build_u16 us = build_u16 us' \<longleftrightarrow> us = us'"
  "build_bool bs = build_bool bs' \<longleftrightarrow> bs = bs'"
  "build_list_u32 ls = build_list_u32 ls' \<longleftrightarrow> ls = ls'"
  "build_list_str ss = build_list_str ss' \<longleftrightarrow> ss = ss'"
  by (simp_all add: build_ts_def build_str_def build_u32_def build_u16_def build_bool_def
      build_list_u32_def build_list_str_def inj_map_eq_map inj_list_cells)

text \<open>The cells the \<open>read_rib\<close> and \<open>read_updates\<close> tables show of a row.\<close>

definition rib_cells where
  "rib_cells r =
     ((row_ts r, r_view_name r, r_peer_ip r, r_peer_asn r, r_prefix r, r_as_path r, r_origin_asn r),
      (r_next_hop r, r_communities r, r_med r, r_local_pref r, r_atomic_aggregate r,
       r_aggregator_asn r, r_error r))"

definition updates_cells where
  "updates_cells r =
     ((row_ts r, r_peer_ip r, r_peer_asn r, r_msg_type r, r_prefix r, r_as_path r),
      (r_origin_asn r, r_next_hop r, r_communities r, r_old_state r, r_new_state r, r_error r))"

lemma inj_map_option_encode_ip: "map_option encode_ip a = map_option encode_ip b \<longleftrightarrow> a = b"
  by (cases a; cases b) (simp_all add: encode_ip_inject)

lemma row_prefix_inject: "row_prefix r = row_prefix r' \<longleftrightarrow> r_prefix r = r_prefix r'"
  by (cases "r_prefix r"; cases "r_prefix r'") (auto simp: row_prefix_def encode_inject)

lemma msg_as_str_inject:
  "map_option msg_as_str a = map_option msg_as_str b \<longleftrightarrow> a = b"
  by (cases a; cases b; simp; (rename_tac x y, case_tac x; case_tac y)?; simp)

lemma map_eq_pointwise:
  assumes "\<And>x y. f x = f y \<longleftrightarrow> g x = g y"
  shows "map f xs = map f ys \<longleftrightarrow> map g xs = map g ys"
proof (induction xs arbitrary: ys)
  case (Cons x xs)
  then show ?case by (cases ys) (auto simp: assms)
qed auto

lemma map_pair_eq:
  "map (\<lambda>x. (f x, g x)) xs = map (\<lambda>x. (f x, g x)) ys \<longleftrightarrow> map f xs = map f ys \<and> map g xs = map g ys"
proof (induction xs arbitrary: ys)
  case (Cons x xs)
  then show ?case by (cases ys) auto
qed auto

lemma columns_inet_inject:
  "map (\<lambda>r. map_option encode_ip (f r)) xs = map (\<lambda>r. map_option encode_ip (f r)) ys
     \<longleftrightarrow> map f xs = map f ys"
  "map row_prefix xs = map row_prefix ys \<longleftrightarrow> map r_prefix xs = map r_prefix ys"
  "map (\<lambda>r. map_option msg_as_str (r_msg_type r)) xs = map (\<lambda>r. map_option msg_as_str (r_msg_type r)) ys
     \<longleftrightarrow> map r_msg_type xs = map r_msg_type ys"
  by (rule map_eq_pointwise,
      simp add: inj_map_option_encode_ip row_prefix_inject msg_as_str_inject)+

subsection \<open>Properties\<close>


definition arrow_try_new :: try_new_fn where
  "arrow_try_new schema cols =
     (if cols \<noteq> [] \<and> conforms schema cols (array_len (hd cols))
      then Inr \<lparr>rb_schema = schema, rb_columns = cols\<rparr> else Inl ''invalid batch'')"

lemma arrow_try_new_accepts: "try_new_accepts arrow_try_new"
proof -
  have "conforms schema cols (array_len (hd cols))"
    if "cols \<noteq> []" "conforms schema cols n" for schema cols n
    using that by (cases cols) (auto simp: conforms_def list_all2_Cons2)
  then show ?thesis by (auto simp: try_new_accepts_def arrow_try_new_def)
qed


text \<open>
  C21: marshalling loses nothing: two row lists give the same \<open>read_rib\<close> columns exactly when they
  agree, row by row, in every field the table shows (addresses, prefixes and nulls included), and
  likewise for the \<open>read_updates\<close> columns with their own fields.
\<close>

theorem columns_injective:
  "(rib_columns rows = rib_columns rows' \<longleftrightarrow> map rib_cells rows = map rib_cells rows')
   \<and> (updates_columns rows = updates_columns rows' \<longleftrightarrow> map updates_cells rows = map updates_cells rows')"
  by (simp only: columns_defs list.inject build_inject build_inet_inject columns_inet_inject
      rib_cells_def [abs_def] updates_cells_def [abs_def] map_pair_eq) blast

text \<open>
  The cells of an error row: in the \<open>read_rib\<close> columns every cell of a captured error is null
  except the message itself and \<open>atomic_aggregate\<close>, which is a valid \<open>false\<close>; so the documented
  \<open>all other columns NULL\<close> does not hold of that column, while in the \<open>read_updates\<close> columns the
  message is the only valid cell.
\<close>

theorem error_row_cells:
  "map (\<lambda>c. is_valid c 0) (rib_columns [error_row msg])
     = replicate 11 False @ [True, False, True]
   \<and> rib_columns [error_row msg] ! 11 = BooleanArray [Some False]
   \<and> rib_columns [error_row msg] ! 13 = StringArray [Some msg]
   \<and> map (\<lambda>c. is_valid c 0) (updates_columns [error_row msg]) = replicate 11 False @ [True]"
  by (simp add: columns_defs is_valid_def row_ts_def row_prefix_def error_row_def default_row_def
      build_ts_def build_str_def build_u32_def build_u16_def build_bool_def build_inet_def
      build_list_u32_def build_list_str_def numeral_eq_Suc) blast

end
