(* ===== verification/Scalar.thy ===== *)
theory Scalar
  imports Options Meta Arrow_Columns
begin

text \<open>
  What the six scalar functions of \<open>bgp-worker/src/scalar/\<close> have in common: the SDK's trait
  \<open>ScalarFunction\<close> as a record of its methods, \<open>RecordBatch::column\<close>, which panics on a missing column,
  and \<open>finish\<close>. \<open>BindResponse::result\<close> is SDK code and a
  parameter; \<open>result_binding\<close> states what is relied on: one nullable column of the given type.

  The locale \<open>vector_function\<close> is the contract they share: a batch without the columns of the arguments
  is a panic; otherwise the array a call builds is a function of those columns and the number of
  rows, has the declared type, and has one cell per row. It is
  interpreted for each of the six where it is defined.
\<close>

type_synonym result_fn = "data_type \<Rightarrow> bind_response"

record scalar_function =
  sf_name :: string
  sf_metadata :: function_metadata
  sf_argument_specs :: "arg_spec list"
  sf_on_bind :: "result_fn \<Rightarrow> bind_response rpc_result"
  sf_process :: "try_new_fn \<Rightarrow> schema \<Rightarrow> record_batch \<Rightarrow> record_batch rpc_result outcome"

definition result_binding :: "result_fn \<Rightarrow> bool" where
  "result_binding res \<longleftrightarrow>
     (\<forall>t. \<exists>f. output_schema (res t) = [f] \<and> field_type f = t \<and> nullable f)"

definition column :: "record_batch \<Rightarrow> nat \<Rightarrow> arrow outcome" where
  "column b i =
     (if i < length (rb_columns b) then Inr (rb_columns b ! i)
      else Inl (''index out of bounds: the len is '' @ dec (length (rb_columns b)) @ '' but the index is '' @ dec i))"

definition finish :: "try_new_fn \<Rightarrow> schema \<Rightarrow> arrow \<Rightarrow> record_batch rpc_result" where
  "finish try_new out arr = map_err RuntimeError (try_new out [arr])"

lemma finish_ok:
  assumes "try_new_accepts try_new" "field_type f = array_type arr" "nullable f"
  shows "finish try_new [f] arr = Inr \<lparr>rb_schema = [f], rb_columns = [arr]\<rparr>"
proof -
  have "conforms [f] [arr] (array_len arr)" using assms(2,3) by (simp add: conforms_def)
  from try_new_acceptsD [OF assms(1) _ this] show ?thesis by (simp add: finish_def)
qed

subsection \<open>The contract\<close>

locale vector_function =
  fixes process :: "try_new_fn \<Rightarrow> schema \<Rightarrow> record_batch \<Rightarrow> record_batch rpc_result outcome"
    and cells :: "arrow list \<Rightarrow> nat \<Rightarrow> arrow"
    and arity :: nat
    and ret :: data_type
  assumes process_cells: "arity \<le> length (rb_columns b) \<Longrightarrow>
      process try_new out b = Inr (finish try_new out (cells (take arity (rb_columns b)) (num_rows b)))"
    and process_panics: "length (rb_columns b) < arity \<Longrightarrow> isl (process try_new out b)"
    and cells_type: "array_type (cells cols n) = ret"
    and cells_len: "array_len (cells cols n) = n"
begin

lemma process_ok:
  assumes "try_new_accepts try_new" "field_type f = ret" "nullable f" "arity \<le> length (rb_columns b)"
  shows "process try_new [f] b
    = Inr (Inr \<lparr>rb_schema = [f], rb_columns = [cells (take arity (rb_columns b)) (num_rows b)]\<rparr>)"
  using finish_ok [OF assms(1) _ assms(3)] assms(2,4) by (simp add: process_cells cells_type)

lemma result_shape:
  assumes "try_new_accepts try_new" "result_binding res"
  shows "if arity \<le> length (rb_columns b)
    then \<exists>arr. process try_new (output_schema (res ret)) b
        = Inr (Inr \<lparr>rb_schema = output_schema (res ret), rb_columns = [arr]\<rparr>)
      \<and> array_type arr = ret \<and> array_len arr = num_rows b
    else isl (process try_new (output_schema (res ret)) b)"
proof -
  obtain f where f: "output_schema (res ret) = [f]" "field_type f = ret" "nullable f"
    using assms(2) unfolding result_binding_def by blast
  then show ?thesis using process_ok [OF assms(1) f(2,3), of b] process_panics [of b]
    by (simp add: cells_type cells_len)
qed

end

lemma column_panics: "length (rb_columns b) \<le> i \<Longrightarrow> isl (column b i)"
  by (simp add: column_def)

lemma first_columns:
  "1 \<le> length cols \<Longrightarrow> take 1 cols = [cols ! 0]"
  "2 \<le> length cols \<Longrightarrow> take 2 cols = [cols ! 0, cols ! 1]"
  by (cases cols; cases "tl cols"; simp)+

text \<open>The cells of a column, read one by one.\<close>

lemma map_rows: "(\<And>i. i < length xs \<Longrightarrow> g i = f (xs ! i)) \<Longrightarrow> map g [0..<length xs] = map f xs"
  by (rule nth_equalityI) simp_all

end
