(* ===== verification/Path_Scalars.thy ===== *)
theory Path_Scalars
  imports Aspath Scalar
begin

text \<open>
  \<open>bgp-worker/src/scalar/path.rs\<close>: \<open>path_length\<close>, \<open>origin_asn\<close>, \<open>as_path_prepends\<close> and \<open>path_contains\<close>
  over record batches. For each function, its metadata, and \<open>process\<close>, whose loop over the rows is the
  array it builds (\<open>_cells\<close>). A batch without the columns of the arguments is a panic.
\<close>

definition as_path_type :: data_type where
  "as_path_type = DList (new_list_field Int64 True)"

definition as_path_spec :: arg_spec where
  \<open>as_path_spec = column_typed ''as_path'' 0 as_path_type
     (''The AS path, in path order '' @ em_dash @ '' the origin AS that announced the prefix is last. This is the ''
        @ ''`as_path` column emitted by read_rib / read_updates.'')\<close>

subsection \<open>\<open>path_length\<close>\<close>

definition path_length_metadata :: function_metadata where
  \<open>path_length_metadata =
     \<lparr>md_description = ''Number of AS hops in an AS path'',
      md_return_type = Some Int64,
      md_examples =
        [\<lparr>ex_sql = ''SELECT bgp.main.path_length([7018, 174, 13335]);'',
          ex_description = ''Count the AS hops in a path (here 3).'',
          ex_expected_output = None\<rparr>],
      md_tags =
        object_tags
          (''AS Path Length'')
          (''Return the number of AS hops in an AS path (its length) '' @ em_dash @ '' the ''
           @ ''`LIST(UINTEGER)` `as_path` column from read_rib / read_updates. An empty path ''
           @ ''is 0; NULL input is NULL. Use it to rank routes for leak/hijack triage (a ''
           @ ''suspiciously long or short path).'')
          (''Number of AS hops in an AS path, e.g. `path_length([7018,174,13335])` = 3.'')
          (''path length, as path length, hops, route length, as_path, leak, hijack'')
          (''AS-path analysis'')
        @ [(''vgi.example_queries'', example_queries_json
             [(''Count the AS hops in a path (here 3).'',
               ''SELECT bgp.main.path_length([7018, 174, 13335]);'')])]\<rparr>\<close>

definition path_length_cells :: "arrow list \<Rightarrow> nat \<Rightarrow> arrow" where
  "path_length_cells cols n =
     Int64Array (map (\<lambda>i. map_option path_length (list_u32_at (cols ! 0) i)) [0..<n])"

definition path_length_process ::
  "try_new_fn \<Rightarrow> schema \<Rightarrow> record_batch \<Rightarrow> record_batch rpc_result outcome" where
  "path_length_process try_new out b =
     try_then (column b 0) (\<lambda>col. Inr (finish try_new out (path_length_cells [col] (num_rows b))))"

definition path_length_function :: scalar_function where
  "path_length_function =
     \<lparr>sf_name = ''path_length'', sf_metadata = path_length_metadata,
      sf_argument_specs = [as_path_spec],
      sf_on_bind = (\<lambda>res. Inr (res Int64)),
      sf_process = path_length_process\<rparr>"

interpretation path_length_vector: vector_function path_length_process path_length_cells 1 Int64
  by unfold_locales
    (auto simp: path_length_process_def path_length_cells_def array_len_def column_def first_columns)

subsection \<open>\<open>origin_asn\<close>\<close>

definition origin_asn_metadata :: function_metadata where
  \<open>origin_asn_metadata =
     \<lparr>md_description = ''The origin AS (last AS) of an AS path'',
      md_return_type = Some UInt32,
      md_examples =
        [\<lparr>ex_sql = ''SELECT bgp.main.origin_asn([7018, 174, 13335]);'',
          ex_description = ''Get the origin AS that announced the prefix (here 13335).'',
          ex_expected_output = None\<rparr>],
      md_tags =
        object_tags
          (''AS Path Origin'')
          (''Return the origin AS of an AS path '' @ em_dash @ '' the last (right-most) ASN, which ''
           @ ''announced the prefix. NULL for an empty or NULL path. Join the result against ''
           @ ''an RPKI/VRP table to validate route origins (route-origin validation lives in ''
           @ ''vgi-netflow, not here).'')
          (''Origin AS of an AS path, e.g. `origin_asn([7018,174,13335])` = 13335.'')
          (''origin asn, origin as, route origin, last as, as_path, RPKI, hijack'')
          (''AS-path analysis'')
        @ [(''vgi.example_queries'', example_queries_json
             [(''Get the origin AS that announced the prefix (here 13335).'',
               ''SELECT bgp.main.origin_asn([7018, 174, 13335]);'')])]\<rparr>\<close>

definition origin_asn_cells :: "arrow list \<Rightarrow> nat \<Rightarrow> arrow" where
  "origin_asn_cells cols n =
     UInt32Array (map (\<lambda>i. Option.bind (list_u32_at (cols ! 0) i) origin_asn) [0..<n])"

definition origin_asn_process ::
  "try_new_fn \<Rightarrow> schema \<Rightarrow> record_batch \<Rightarrow> record_batch rpc_result outcome" where
  "origin_asn_process try_new out b =
     try_then (column b 0) (\<lambda>col. Inr (finish try_new out (origin_asn_cells [col] (num_rows b))))"

definition origin_asn_function :: scalar_function where
  "origin_asn_function =
     \<lparr>sf_name = ''origin_asn'', sf_metadata = origin_asn_metadata,
      sf_argument_specs = [as_path_spec],
      sf_on_bind = (\<lambda>res. Inr (res UInt32)),
      sf_process = origin_asn_process\<rparr>"

interpretation origin_asn_vector: vector_function origin_asn_process origin_asn_cells 1 UInt32
  by unfold_locales
    (auto simp: origin_asn_process_def origin_asn_cells_def array_len_def column_def first_columns)

subsection \<open>\<open>as_path_prepends\<close>\<close>

definition as_path_prepends_metadata :: function_metadata where
  \<open>as_path_prepends_metadata =
     \<lparr>md_description = ''Number of AS-path prepends (padded repeated ASNs)'',
      md_return_type = Some Int64,
      md_examples =
        [\<lparr>ex_sql = ''SELECT bgp.main.as_path_prepends([7018, 174, 174, 13335]);'',
          ex_description = ''Count the prepended (padded) ASNs in a path (here 1).'',
          ex_expected_output = None\<rparr>],
      md_tags =
        object_tags
          (''AS-Path Prepend Count'')
          (''Return the number of AS-path prepends: extra occurrences of an ASN that ''
           @ ''immediately repeats its predecessor, i.e. an AS padding its own number to ''
           @ ''deprioritize a route. `[1,1,1,2]` has two prepends, `[1,2,3]` has none. NULL ''
           @ ''input is NULL.'')
          (''Count of AS-path prepends, e.g. `as_path_prepends([1,1,1,2])` = 2.'')
          (''as path prepends, prepending, padding, traffic engineering, as_path'')
          (''AS-path analysis'')
        @ [(''vgi.example_queries'', example_queries_json
             [(''Count the prepended (padded) ASNs in a path (here 1).'',
               ''SELECT bgp.main.as_path_prepends([7018, 174, 174, 13335]);'')])]\<rparr>\<close>

definition as_path_prepends_cells :: "arrow list \<Rightarrow> nat \<Rightarrow> arrow" where
  "as_path_prepends_cells cols n =
     Int64Array (map (\<lambda>i. map_option as_path_prepends (list_u32_at (cols ! 0) i)) [0..<n])"

definition as_path_prepends_process ::
  "try_new_fn \<Rightarrow> schema \<Rightarrow> record_batch \<Rightarrow> record_batch rpc_result outcome" where
  "as_path_prepends_process try_new out b =
     try_then (column b 0) (\<lambda>col. Inr (finish try_new out (as_path_prepends_cells [col] (num_rows b))))"

definition as_path_prepends_function :: scalar_function where
  "as_path_prepends_function =
     \<lparr>sf_name = ''as_path_prepends'', sf_metadata = as_path_prepends_metadata,
      sf_argument_specs = [as_path_spec],
      sf_on_bind = (\<lambda>res. Inr (res Int64)),
      sf_process = as_path_prepends_process\<rparr>"

interpretation as_path_prepends_vector: vector_function as_path_prepends_process as_path_prepends_cells 1 Int64
  by unfold_locales
    (auto simp: as_path_prepends_process_def as_path_prepends_cells_def array_len_def column_def first_columns)

subsection \<open>\<open>path_contains\<close>\<close>

definition path_contains_metadata :: function_metadata where
  \<open>path_contains_metadata =
     \<lparr>md_description = ''Whether an AS path traverses a given ASN'',
      md_return_type = Some Boolean,
      md_examples =
        [\<lparr>ex_sql = ''SELECT bgp.main.path_contains([7018, 174, 13335], 174);'',
          ex_description = ''Test whether a path traverses AS 174 (here true).'',
          ex_expected_output = None\<rparr>],
      md_tags =
        object_tags
          (''AS Path Contains ASN'')
          (''Return whether an AS path traverses a given ASN anywhere along it. NULL if ''
           @ ''the path is NULL. Use it to find every route that passes through a suspect ''
           @ ''transit AS (leak detection).'')
          (''Whether an AS path contains an ASN, e.g. ''
           @ ''`path_contains([7018,174,13335], 174)` = true.'')
          (''path contains, traverses, transit as, through asn, as_path, leak detection'')
          (''AS-path analysis'')
        @ [(''vgi.example_queries'', example_queries_json
             [(''Test whether a path traverses AS 174 (here true).'',
               ''SELECT bgp.main.path_contains([7018, 174, 13335], 174);'')])]\<rparr>\<close>

definition path_contains_cells :: "arrow list \<Rightarrow> nat \<Rightarrow> arrow" where
  "path_contains_cells cols n =
     BooleanArray (map (\<lambda>i.
       case (list_u32_at (cols ! 0) i, u32_at (cols ! 1) i) of
         (Some path, Some asn) \<Rightarrow> Some (path_contains path asn)
       | _ \<Rightarrow> None) [0..<n])"

definition path_contains_process ::
  "try_new_fn \<Rightarrow> schema \<Rightarrow> record_batch \<Rightarrow> record_batch rpc_result outcome" where
  "path_contains_process try_new out b =
     try_then (column b 0) (\<lambda>path_col. try_then (column b 1) (\<lambda>asn_col.
       Inr (finish try_new out (path_contains_cells [path_col, asn_col] (num_rows b)))))"

definition path_contains_function :: scalar_function where
  "path_contains_function =
     \<lparr>sf_name = ''path_contains'', sf_metadata = path_contains_metadata,
      sf_argument_specs = [as_path_spec,
        column_typed ''asn'' 1 Int64
          (''The autonomous-system number to look for anywhere along the path.'')],
      sf_on_bind = (\<lambda>res. Inr (res Boolean)),
      sf_process = path_contains_process\<rparr>"

interpretation path_contains_vector: vector_function path_contains_process path_contains_cells 2 Boolean
  by unfold_locales
    (auto simp: path_contains_process_def path_contains_cells_def array_len_def column_def first_columns)

end
