(* ===== verification/Community.thy ===== *)
theory Community
  imports Rust_Num
begin

text \<open>
  \<open>bgp-core/src/community.rs\<close>: \<open>community_parse\<close> splits a standard community \<open>asn:value\<close>,
  \<open>is_large_community\<close> recognises a large one. \<open>show_standard\<close> and \<open>show_large\<close> are the
  canonical strings the \<open>communities\<close> column holds (the inverse the round trips use). The lemmas
  characterise both functions by the list of colon-separated parts.
\<close>

definition community_parse :: "string \<Rightarrow> (u32 \<times> u32) option" where
  "community_parse raw =
     (let parts = split_on (CHR '':'') (trim raw)
      in case parts of
           [] \<Rightarrow> None
         | p0 # rest0 \<Rightarrow>
             (case parse_u32 p0 of
                None \<Rightarrow> None
              | Some asn \<Rightarrow>
                  (case rest0 of
                     [] \<Rightarrow> None
                   | p1 # rest1 \<Rightarrow>
                       (case parse_u32 p1 of
                          None \<Rightarrow> None
                        | Some value \<Rightarrow> if rest1 \<noteq> [] then None else Some (asn, value)))))"

definition is_large_community :: "string \<Rightarrow> bool" where
  "is_large_community raw \<longleftrightarrow>
     (let parts = split_on (CHR '':'') (trim raw)
      in length parts = 3 \<and> list_all (\<lambda>p. parse_u32 p \<noteq> None) parts)"

definition show_standard :: "u32 \<Rightarrow> u32 \<Rightarrow> string" where
  "show_standard a v = show_u32 a @ CHR '':'' # show_u32 v"

definition show_large :: "u32 \<Rightarrow> u32 \<Rightarrow> u32 \<Rightarrow> string" where
  "show_large g d1 d2 = show_u32 g @ CHR '':'' # show_u32 d1 @ CHR '':'' # show_u32 d2"

lemma community_parse_Some_iff:
  "community_parse raw = Some (a, v) \<longleftrightarrow>
     (\<exists>p q. split_on (CHR '':'') (trim raw) = [p, q] \<and> parse_u32 p = Some a \<and> parse_u32 q = Some v)"
  by (auto simp: community_parse_def Let_def split: list.splits option.splits if_splits)

lemma split_standard [str_simps]:
  "split_on (CHR '':'') (show_standard a v) = [show_u32 a, show_u32 v]"
  by (simp add: show_standard_def split_on_sep split_on_free show_u32_free)

lemma split_large [str_simps]:
  "split_on (CHR '':'') (show_large g d1 d2) = [show_u32 g, show_u32 d1, show_u32 d2]"
  by (simp add: show_large_def split_on_sep split_on_free show_u32_free)

lemma trim_shown [str_simps]:
  "trim (show_standard a v) = show_standard a v"
  "trim (show_large g d1 d2) = show_large g d1 d2"
  by (rule trim_graph; simp add: show_standard_def show_large_def show_u32_ends)+

subsection \<open>Properties\<close>

text \<open>
  C25: parsing inverts printing: the canonical string of every standard community, with any number
  of blanks before it, parses back to exactly its two halves over the whole \<open>u32\<close> range, and is
  not taken for a large community; the canonical string of every large community is recognised as
  large and never parses as a standard one.
\<close>

theorem community_roundtrip:
  "community_parse (replicate n (CHR '' '') @ show_standard a v) = Some (a, v)
   \<and> \<not> is_large_community (replicate n (CHR '' '') @ show_standard a v)
   \<and> is_large_community (replicate n (CHR '' '') @ show_large g d1 d2)
   \<and> community_parse (replicate n (CHR '' '') @ show_large g d1 d2) = None"
proof -
  have t: "trim (replicate n (CHR '' '') @ s) = trim s" for s
    by (induction n) (simp_all add: trim_leading_space)
  show ?thesis
    by (simp add: community_parse_def is_large_community_def t str_simps)
qed

text \<open>
  The two classifiers are disjoint on every string, and each accepts nothing but colon-separated
  unsigned 32-bit numbers: a string with no colon (a mnemonic such as \<open>NO_EXPORT\<close>) is neither, and
  an accepted standard community has exactly two parts.
\<close>

theorem community_classes_disjoint:
  assumes "community_parse raw = Some (a, v)"
  shows "\<not> is_large_community raw
    \<and> (\<exists>p q. trim raw = p @ CHR '':'' # q \<and> parse_u32 p = Some a \<and> parse_u32 q = Some v
              \<and> CHR '':'' \<notin> set p \<and> CHR '':'' \<notin> set q)"
proof -
  from assms obtain p q where pq:
    "split_on (CHR '':'') (trim raw) = [p, q]" "parse_u32 p = Some a" "parse_u32 q = Some v"
    by (auto simp: community_parse_Some_iff)
  have "join [CHR '':''] (split_on (CHR '':'') (trim raw)) = trim raw" by (rule join_split_on)
  with pq have "trim raw = p @ CHR '':'' # q" by simp
  moreover have "CHR '':'' \<notin> set p" "CHR '':'' \<notin> set q"
    using pq(1) split_on_parts [of _ "CHR '':''" "trim raw"] by auto
  moreover have "\<not> is_large_community raw"
    using pq by (simp add: is_large_community_def)
  ultimately show ?thesis using pq by blast
qed

theorem community_classes_disjoint_witness:
  "\<not> is_large_community (show_standard 65001 100)"
proof -
  have "community_parse (show_standard 65001 100) = Some (65001, 100)"
    by (simp add: community_parse_def str_simps)
  then show ?thesis by (blast dest: community_classes_disjoint)
qed

end
