(* ===== verification/Community_Scalars.thy ===== *)
theory Community_Scalars
  imports Community Scalar
begin

text \<open>
  \<open>bgp-worker/src/scalar/community.rs\<close>: \<open>community_parse\<close>, whose result is a struct array with two
  children and a validity bit per row, and \<open>is_large_community\<close>. A batch without a column is a panic.
\<close>

definition community_struct_fields :: "field list" where
  "community_struct_fields = [Field ''asn'' UInt32 False [], Field ''value'' UInt32 False []]"

definition raw_spec :: arg_spec where
  \<open>raw_spec = column_typed ''raw'' 0 Utf8
     (''A community string, e.g. \'65001:100\' (standard) or \'65001:1:2\' (large).'')\<close>

subsection \<open>\<open>community_parse\<close>\<close>

definition community_parse_metadata :: function_metadata where
  \<open>community_parse_metadata =
     \<lparr>md_description = ''Parse a standard community \'asn:value\' into a STRUCT(asn, value)'',
      md_return_type = Some (DStruct community_struct_fields),
      md_examples =
        [\<lparr>ex_sql = ''SELECT bgp.main.community_parse(\'65001:100\');'',
          ex_description = ''Split a standard community into {asn: 65001, value: 100}.'',
          ex_expected_output = None\<rparr>],
      md_tags =
        object_tags
          (''Parse BGP Community'')
          (''Parse a standard BGP community string (\'<asn>:<value>\') into a ''
           @ ''`STRUCT(asn UINTEGER, value UINTEGER)`. Returns a NULL struct for anything ''
           @ ''that is not a plain two-part community '' @ em_dash @ '' a large community (\'a:b:c\'), a ''
           @ ''well-known mnemonic (\'NO_EXPORT\'), or NULL input. Use it to filter or group ''
           @ ''routes by community without a regex.'')
          (''Parse a standard community into (asn, value), e.g. ''
           @ ''`community_parse(\'65001:100\')` = {asn: 65001, value: 100}.'')
          (''community parse, bgp community, asn value, standard community, tag, decode'')
          (''BGP communities'')
        @ [(''vgi.example_queries'', example_queries_json
             [(''Split a standard community into {asn: 65001, value: 100}.'',
               ''SELECT bgp.main.community_parse(\'65001:100\');'')])]\<rparr>\<close>

definition community_parse_cells :: "arrow list \<Rightarrow> nat \<Rightarrow> arrow" where
  "community_parse_cells cols n =
     (let parsed = map (\<lambda>i. Option.bind (str_at (cols ! 0) i) community_parse) [0..<n]
      in StructArray community_struct_fields
           [UInt32Array (map (\<lambda>p. case p of Some (a, v) \<Rightarrow> Some a | None \<Rightarrow> Some 0) parsed),
            UInt32Array (map (\<lambda>p. case p of Some (a, v) \<Rightarrow> Some v | None \<Rightarrow> Some 0) parsed)]
           (map (\<lambda>p. case p of Some (a, v) \<Rightarrow> True | None \<Rightarrow> False) parsed))"

definition community_parse_process ::
  "try_new_fn \<Rightarrow> schema \<Rightarrow> record_batch \<Rightarrow> record_batch rpc_result outcome" where
  "community_parse_process try_new out b =
     try_then (column b 0) (\<lambda>col.
       Inr (map_err RuntimeError (try_new out [community_parse_cells [col] (num_rows b)])))"

definition community_parse_function :: scalar_function where
  "community_parse_function =
     \<lparr>sf_name = ''community_parse'', sf_metadata = community_parse_metadata,
      sf_argument_specs = [raw_spec],
      sf_on_bind = (\<lambda>res. Inr (res (DStruct community_struct_fields))),
      sf_process = community_parse_process\<rparr>"

interpretation community_parse_vector: vector_function community_parse_process community_parse_cells
    1 "DStruct community_struct_fields"
  by unfold_locales
    (auto simp: community_parse_process_def community_parse_cells_def array_len_def finish_def Let_def
      column_def first_columns)

subsection \<open>\<open>is_large_community\<close>\<close>

definition is_large_community_metadata :: function_metadata where
  \<open>is_large_community_metadata =
     \<lparr>md_description = ''Whether a community string is an RFC 8092 large community'',
      md_return_type = Some Boolean,
      md_examples =
        [\<lparr>ex_sql = ''SELECT bgp.main.is_large_community(\'65001:1:2\');'',
          ex_description = ''Detect a large community (three numeric parts '' @ arrow_right @ '' true).'',
          ex_expected_output = None\<rparr>],
      md_tags =
        object_tags
          (''Large-Community Classifier'')
          (''Return whether a community string is a large community (RFC 8092): exactly ''
           @ ''three colon-separated unsigned-integer parts, \'<global>:<data1>:<data2>\'. ''
           @ ''False for a standard \'a:b\' community or a well-known mnemonic; NULL input is ''
           @ ''NULL.'')
          (''Whether a community is a large community, e.g. ''
           @ ''`is_large_community(\'65001:1:2\')` = true.'')
          (''large community, RFC 8092, community type, three part community, classify'')
          (''BGP communities'')
        @ [(''vgi.example_queries'', example_queries_json
             [(''Detect a large community (three numeric parts, so true).'',
               ''SELECT bgp.main.is_large_community(\'65001:1:2\');'')])]\<rparr>\<close>

definition is_large_community_cells :: "arrow list \<Rightarrow> nat \<Rightarrow> arrow" where
  "is_large_community_cells cols n =
     BooleanArray (map (\<lambda>i. map_option is_large_community (str_at (cols ! 0) i)) [0..<n])"

definition is_large_community_process ::
  "try_new_fn \<Rightarrow> schema \<Rightarrow> record_batch \<Rightarrow> record_batch rpc_result outcome" where
  "is_large_community_process try_new out b =
     try_then (column b 0) (\<lambda>col.
       Inr (map_err RuntimeError (try_new out [is_large_community_cells [col] (num_rows b)])))"

definition is_large_community_function :: scalar_function where
  "is_large_community_function =
     \<lparr>sf_name = ''is_large_community'', sf_metadata = is_large_community_metadata,
      sf_argument_specs = [raw_spec],
      sf_on_bind = (\<lambda>res. Inr (res Boolean)),
      sf_process = is_large_community_process\<rparr>"

interpretation is_large_community_vector: vector_function is_large_community_process
    is_large_community_cells 1 Boolean
  by unfold_locales
    (auto simp: is_large_community_process_def is_large_community_cells_def array_len_def finish_def
      column_def first_columns)

end
