(* ===== verification/Scalars.thy ===== *)
theory Scalars
  imports Path_Scalars Community_Scalars
begin

text \<open>
  The registry of \<open>bgp-worker/src/scalar/mod.rs\<close> and what the six scalar functions compute: the result
  has the type that bind and metadata declare, whatever the columns given; over paths widened to \<open>BIGINT[]\<close>
  they are the pure functions of \<open>aspath.rs\<close>, cell by cell; and numbers outside \<open>u32\<close> are cut to their
  low half, which \<open>path_contains\<close> shows to the caller.
\<close>

definition registered_scalars :: "scalar_function list" where
  "registered_scalars =
     [path_length_function, origin_asn_function, as_path_prepends_function, path_contains_function,
      community_parse_function, is_large_community_function]"

lemmas function_defs =
  path_length_function_def origin_asn_function_def as_path_prepends_function_def
  path_contains_function_def community_parse_function_def is_large_community_function_def
  path_length_metadata_def origin_asn_metadata_def as_path_prepends_metadata_def
  path_contains_metadata_def community_parse_metadata_def is_large_community_metadata_def

subsection \<open>Types\<close>

definition well_formed_call :: "try_new_fn \<Rightarrow> result_fn \<Rightarrow> record_batch \<Rightarrow> scalar_function \<Rightarrow> bool" where
  "well_formed_call try_new res b f \<longleftrightarrow>
     (\<exists>t. sf_on_bind f res = Inr (res t) \<and> md_return_type (sf_metadata f) = Some t
       \<and> (if length (sf_argument_specs f) \<le> length (rb_columns b)
          then \<exists>arr. sf_process f try_new (output_schema (res t)) b
                = Inr (Inr \<lparr>rb_schema = output_schema (res t), rb_columns = [arr]\<rparr>)
              \<and> array_type arr = t \<and> array_len arr = num_rows b
          else isl (sf_process f try_new (output_schema (res t)) b)))"

lemmas vector_results =
  path_length_vector.result_shape origin_asn_vector.result_shape
  as_path_prepends_vector.result_shape path_contains_vector.result_shape
  community_parse_vector.result_shape is_large_community_vector.result_shape

text \<open>
  C23: every scalar function keeps its declared type: each of the six registered functions binds the
  type its metadata declares; on a batch with at least as many columns as the function declares
  arguments, whatever the types and contents of those columns, \<open>process\<close> gives, without an error or a
  panic, a batch of that one column with the bound schema and one cell per input row; and on a batch
  with fewer columns it panics (\<open>batch.column\<close>), for every one of the six.
\<close>

theorem scalars_typed:
  assumes "try_new_accepts try_new" "result_binding res"
  shows "list_all (well_formed_call try_new res b) registered_scalars"
  using vector_results [OF assms, of b]
  by (simp add: registered_scalars_def well_formed_call_def function_defs)

definition sample_result :: result_fn where
  "sample_result t = \<lparr>output_schema = [Field ''result'' t True []], opaque_data = []\<rparr>"

lemma sample_result_binding: "result_binding sample_result"
  by (simp add: result_binding_def sample_result_def)

theorem scalars_typed_witness:
  "list_all (well_formed_call arrow_try_new sample_result
     \<lparr>rb_schema = [], rb_columns = [StringArray [None], BooleanArray [Some True]]\<rparr>) registered_scalars
   \<and> list_all (well_formed_call arrow_try_new sample_result \<lparr>rb_schema = [], rb_columns = []\<rparr>)
       registered_scalars"
  by (intro conjI scalars_typed [OF arrow_try_new_accepts sample_result_binding])

subsection \<open>AS paths\<close>

text \<open>A column of paths as \<open>BIGINT[]\<close>, the declared argument type.\<close>

definition bigint_paths :: "u32 list option list \<Rightarrow> arrow" where
  "bigint_paths paths =
     ListArray (new_list_field Int64 True)
       (map (map_option (\<lambda>p. Int64Array (map (\<lambda>a. Some (ucast a)) p))) paths)"

lemma ucast_widened: "ucast (ucast (a :: u32) :: i64) = a"
  by (rule bit_word_eqI) (simp add: bit_ucast_iff)

lemma int64_widened: "int_array_to_u32 (Int64Array (map (\<lambda>a. Some (ucast (a :: u32))) p)) = p"
  by (simp add: or_zero_def ucast_widened comp_def)

lemma list_u32_at_bigint: "i < length paths \<Longrightarrow> list_u32_at (bigint_paths paths) i = paths ! i"
  by (simp add: bigint_paths_def option.map_comp comp_def int64_widened option.map_ident
      del: int_array_to_u32.simps)

lemma num_rows_bigint: "num_rows \<lparr>rb_schema = s, rb_columns = bigint_paths paths # cs\<rparr> = length paths"
  by (simp add: num_rows_def bigint_paths_def array_len_def)

definition contains_cell :: "u32 list option \<Rightarrow> i64 option \<Rightarrow> bool option" where
  "contains_cell p a = (case (p, a) of (Some path, Some asn) \<Rightarrow> Some (path_contains path (ucast asn)) | _ \<Rightarrow> None)"

lemma bigint_cells:
  "path_length_cells (bigint_paths paths # cs) (length paths) = Int64Array (map (map_option path_length) paths)"
  "origin_asn_cells (bigint_paths paths # cs) (length paths) = UInt32Array (map (\<lambda>p. Option.bind p origin_asn) paths)"
  "as_path_prepends_cells (bigint_paths paths # cs) (length paths)
     = Int64Array (map (map_option as_path_prepends) paths)"
  by (simp_all add: path_length_cells_def origin_asn_cells_def as_path_prepends_cells_def
      map_rows list_u32_at_bigint)

lemma bigint_contains:
  assumes "length asns = length paths"
  shows "path_contains_cells [bigint_paths paths, Int64Array asns] (length paths)
    = BooleanArray (map2 contains_cell paths asns)"
proof -
  have "map (\<lambda>i. case (list_u32_at (bigint_paths paths) i, u32_at (Int64Array asns) i) of
      (Some path, Some asn) \<Rightarrow> Some (path_contains path asn) | _ \<Rightarrow> None) [0..<length paths]
    = map2 contains_cell paths asns"
    using assms map_rows [of "zip paths asns" _ "\<lambda>(p, a). contains_cell p a"]
    by (simp add: list_u32_at_bigint contains_cell_def split: option.splits)
  then show ?thesis by (simp add: path_contains_cells_def)
qed

text \<open>
  C22: over a column of paths the scalar functions are the pure ones: with the paths widened to
  \<open>BIGINT[]\<close>, as the argument is declared, \<open>path_length\<close>, \<open>origin_asn\<close>, \<open>as_path_prepends\<close> and
  \<open>path_contains\<close> return the column of the results of \<open>aspath.rs\<close> on the original paths, row by row; a
  null path (or a null number) gives a null, and so does the origin of an empty path.
\<close>

theorem path_scalars_lift:
  assumes "try_new_accepts try_new" "length asns = length paths"
  shows "path_length_process try_new [Field r Int64 True m] \<lparr>rb_schema = s, rb_columns = [bigint_paths paths]\<rparr>
      = Inr (Inr \<lparr>rb_schema = [Field r Int64 True m], rb_columns = [Int64Array (map (map_option path_length) paths)]\<rparr>)
    \<and> origin_asn_process try_new [Field r UInt32 True m] \<lparr>rb_schema = s, rb_columns = [bigint_paths paths]\<rparr>
      = Inr (Inr \<lparr>rb_schema = [Field r UInt32 True m],
              rb_columns = [UInt32Array (map (\<lambda>p. Option.bind p origin_asn) paths)]\<rparr>)
    \<and> as_path_prepends_process try_new [Field r Int64 True m] \<lparr>rb_schema = s, rb_columns = [bigint_paths paths]\<rparr>
      = Inr (Inr \<lparr>rb_schema = [Field r Int64 True m],
              rb_columns = [Int64Array (map (map_option as_path_prepends) paths)]\<rparr>)
    \<and> path_contains_process try_new [Field r Boolean True m]
        \<lparr>rb_schema = s, rb_columns = [bigint_paths paths, Int64Array asns]\<rparr>
      = Inr (Inr \<lparr>rb_schema = [Field r Boolean True m], rb_columns = [BooleanArray (map2 contains_cell paths asns)]\<rparr>)"
  using assms
  by (simp add: path_length_vector.process_ok origin_asn_vector.process_ok as_path_prepends_vector.process_ok
      path_contains_vector.process_ok num_rows_bigint bigint_cells bigint_contains)

theorem path_scalars_lift_witness:
  "path_length_process arrow_try_new [Field ''result'' Int64 True []]
     \<lparr>rb_schema = [], rb_columns = [bigint_paths [Some [7018, 174, 13335], None]]\<rparr>
   = Inr (Inr \<lparr>rb_schema = [Field ''result'' Int64 True []], rb_columns = [Int64Array [Some 3, None]]\<rparr>)"
  using path_scalars_lift [OF arrow_try_new_accepts, of "[None, None]" "[Some [7018, 174, 13335], None]"]
  by (simp add: path_length_def)

lemma ucast_in_image:
  fixes v :: i64
  shows "ucast v \<in> set (path :: u32 list) \<longleftrightarrow>
    v \<in> ucast ` set path \<or> 2 ^ 32 \<le> uint v \<and> ucast v \<in> set path"
proof (cases "uint v < 2 ^ 32")
  case True
  then have "take_bit 32 (uint v) = uint v" by (simp add: take_bit_int_eq_self)
  then have "ucast (ucast v :: u32) = v"
    by (simp add: word_uint_eq_iff unsigned_take_bit_eq unsigned_ucast_eq)
  with True show ?thesis by (auto simp: ucast_widened image_iff intro: bexI [of _ "ucast v"])
next
  case False
  then show ?thesis by (auto simp: ucast_widened)
qed

text \<open>
  C24: \<open>path_contains\<close> also answers for numbers that are no ASN: on one row with a path and a \<open>BIGINT\<close>
  number \<open>v\<close> the answer is true when \<open>v\<close> is in the path, and also when \<open>v\<close> is outside the range of
  an ASN (negative, or at least \<open>2^32\<close>) and its low 32 bits are in the path. So AS 4294967470 is
  reported to be in a path through AS 174.
\<close>

theorem path_contains_wraps:
  "path_contains_cells [bigint_paths [Some path], Int64Array [Some v]] 1
     = BooleanArray [Some (v \<in> ucast ` set path \<or> 2 ^ 32 \<le> uint v \<and> ucast v \<in> set path)]
   \<and> path_contains_cells [bigint_paths [Some [7018, 174]], Int64Array [Some 4294967470]] 1
     = BooleanArray [Some True]
   \<and> (4294967470 :: i64) \<notin> ucast ` set [7018, 174 :: u32]"
proof -
  have one: "path_contains_cells [bigint_paths [Some p], Int64Array [Some w]] 1
      = BooleanArray [Some (ucast w \<in> set p)]" for p w
    using bigint_contains [of "[Some w]" "[Some p]"]
    by (simp add: contains_cell_def path_contains_def)
  show ?thesis
    unfolding one using ucast_in_image [of v path] by simp
qed

subsection \<open>Communities\<close>

definition parsed_cell :: "string option \<Rightarrow> (u32 \<times> u32) option" where
  "parsed_cell x = Option.bind x community_parse"

lemma num_rows_strings: "num_rows \<lparr>rb_schema = s, rb_columns = [StringArray xs]\<rparr> = length xs"
  by (simp add: num_rows_def array_len_def)

lemma community_cells:
  "community_parse_cells [StringArray xs] (length xs) =
     StructArray community_struct_fields
       [UInt32Array (map (\<lambda>x. Some (case parsed_cell x of Some (a, v) \<Rightarrow> a | None \<Rightarrow> 0)) xs),
        UInt32Array (map (\<lambda>x. Some (case parsed_cell x of Some (a, v) \<Rightarrow> v | None \<Rightarrow> 0)) xs)]
       (map (\<lambda>x. parsed_cell x \<noteq> None) xs)"
  "is_large_community_cells [StringArray xs] (length xs) = BooleanArray (map (map_option is_large_community) xs)"
proof -
  have "map (\<lambda>i. Option.bind (str_at (StringArray xs) i) community_parse) [0..<length xs] = map parsed_cell xs"
    by (rule map_rows) (simp add: parsed_cell_def)
  then show "community_parse_cells [StringArray xs] (length xs) =
     StructArray community_struct_fields
       [UInt32Array (map (\<lambda>x. Some (case parsed_cell x of Some (a, v) \<Rightarrow> a | None \<Rightarrow> 0)) xs),
        UInt32Array (map (\<lambda>x. Some (case parsed_cell x of Some (a, v) \<Rightarrow> v | None \<Rightarrow> 0)) xs)]
       (map (\<lambda>x. parsed_cell x \<noteq> None) xs)"
    by (auto simp: community_parse_cells_def Let_def split: option.split)
  show "is_large_community_cells [StringArray xs] (length xs) = BooleanArray (map (map_option is_large_community) xs)"
    by (simp add: is_large_community_cells_def map_rows)
qed

text \<open>
  C36: the community functions over a column: the struct of a row is valid exactly when its string is
  not null and parses as a standard community, and then holds its two halves; the classifier is null
  exactly on a null string; and no row has both a valid struct and a true classifier.
\<close>

theorem community_columns:
  assumes "try_new_accepts try_new"
  shows "community_parse_process try_new [Field r (DStruct community_struct_fields) True m]
        \<lparr>rb_schema = s, rb_columns = [StringArray xs]\<rparr>
      = Inr (Inr \<lparr>rb_schema = [Field r (DStruct community_struct_fields) True m], rb_columns = [StructArray community_struct_fields
          [UInt32Array (map (\<lambda>x. Some (case parsed_cell x of Some (a, v) \<Rightarrow> a | None \<Rightarrow> 0)) xs),
           UInt32Array (map (\<lambda>x. Some (case parsed_cell x of Some (a, v) \<Rightarrow> v | None \<Rightarrow> 0)) xs)]
          (map (\<lambda>x. parsed_cell x \<noteq> None) xs)]\<rparr>)
    \<and> is_large_community_process try_new [Field r Boolean True m] \<lparr>rb_schema = s, rb_columns = [StringArray xs]\<rparr>
      = Inr (Inr \<lparr>rb_schema = [Field r Boolean True m], rb_columns = [BooleanArray (map (map_option is_large_community) xs)]\<rparr>)
    \<and> list_all (\<lambda>x. parsed_cell x = None \<or> map_option is_large_community x = Some False) xs"
proof -
  have "parsed_cell x = None \<or> map_option is_large_community x = Some False" for x
    using community_classes_disjoint by (cases x) (auto simp: parsed_cell_def)
  with assms show ?thesis
    by (simp add: community_parse_vector.process_ok is_large_community_vector.process_ok
        num_rows_strings community_cells list_all_iff)
qed

theorem community_columns_witness:
  "is_large_community_process arrow_try_new [Field ''r'' Boolean True []]
     \<lparr>rb_schema = [], rb_columns = [StringArray [Some ''1:2:3'', None]]\<rparr>
   = Inr (Inr \<lparr>rb_schema = [Field ''r'' Boolean True []],
          rb_columns = [BooleanArray (map (map_option is_large_community) [Some ''1:2:3'', None])]\<rparr>)"
  by (rule community_columns [OF arrow_try_new_accepts, THEN conjunct2, THEN conjunct1])

end
