(* ===== verification/Sources.thy ===== *)
theory Sources
  imports Options
begin

text \<open>
  The source half of \<open>bgp-worker/src/reader.rs\<close>: path specifications become concrete sources
  (\<open>resolve_sources\<close>, \<open>resolve_locations\<close>, \<open>resolve_local\<close>) and a source is opened as a byte stream.
  The file system and the object stores are the parameters of \<open>world\<close>; a file that is opened twice is
  taken to deliver the same reads.
\<close>

datatype 's byte_source = LocalSource string | RemoteSource 's string url | BytesSource "u8 list"

fun label :: "'s byte_source \<Rightarrow> string" where
  "label (LocalSource p) = p"
| "label (RemoteSource store path u) = url_text u"
| "label (BytesSource b) = ''<blob>''"

fun open_source :: "'s world \<Rightarrow> 's byte_source \<Rightarrow> script rpc_result" where
  "open_source w (LocalSource path) =
     map_err (\<lambda>e. ValueError (''read '' @ path @ '': '' @ e)) (file_open w path)"
| "open_source w (RemoteSource store path u) =
     try_then (fetch_object w store path u) (\<lambda>bytes. Inr (cursor bytes))"
| "open_source w (BytesSource b) = Inr (cursor b)"

subsection \<open>Resolution\<close>

definition file_not_found :: "string \<Rightarrow> rpc_error" where
  "file_not_found spec = ValueError (''File not found: '' @ spec)"

definition resolve_local :: "'s world \<Rightarrow> string \<Rightarrow> string list rpc_result" where
  "resolve_local w spec =
     (if contains_any glob_chars spec then
        try_then (map_err (\<lambda>e. ValueError (''bad glob '' @ quoted spec @ '': '' @ e)) (glob_paths w spec))
          (\<lambda>entries. Inr (sort (List.map_filter ok_of entries)))
      else if file_exists w spec then Inr [spec]
      else Inl (file_not_found spec))"

definition resolve_locations :: "'s world \<Rightarrow> string \<Rightarrow> secrets \<Rightarrow> overrides \<Rightarrow> location list rpc_result" where
  "resolve_locations w spec sec ov =
     try_then (classify w spec) (\<lambda>loc.
       (case loc of
          Local p \<Rightarrow> try_then (resolve_local w p) (\<lambda>ps. Inr (map Local ps))
        | Remote u \<Rightarrow>
            if contains_any glob_chars (remote_key w u)
            then try_then (list_glob w u sec ov) (\<lambda>us. Inr (map Remote us))
            else Inr [Remote u]))"

fun location_source :: "'s world \<Rightarrow> secrets \<Rightarrow> overrides \<Rightarrow> location \<Rightarrow> 's byte_source list rpc_result" where
  "location_source w sec ov (Local p) = Inr [LocalSource p]"
| "location_source w sec ov (Remote u) =
     try_then (build_store w u sec ov) (\<lambda>(store, path). Inr [RemoteSource store path u])"

definition path_sources :: "'s world \<Rightarrow> secrets \<Rightarrow> overrides \<Rightarrow> string \<Rightarrow> 's byte_source list rpc_result" where
  "path_sources w sec ov p =
     try_then (resolve_locations w p sec ov) (try_concat (location_source w sec ov))"

fun resolve_sources :: "'s world \<Rightarrow> src \<Rightarrow> secrets \<Rightarrow> overrides \<Rightarrow> 's byte_source list rpc_result" where
  "resolve_sources w (Bytes b) sec ov = Inr [BytesSource b]"
| "resolve_sources w (Paths paths) sec ov = try_concat (path_sources w sec ov) paths"

subsection \<open>Lemmas\<close>

lemma resolve_local_glob:
  assumes "resolve_local w spec = Inr ps" "contains_any glob_chars spec"
  shows "\<exists>entries. glob_paths w spec = Inr entries \<and> sorted ps
    \<and> mset ps = mset (List.map_filter ok_of entries)"
  using assms by (auto simp: resolve_local_def try_then_Inr_iff)

lemma resolve_local_literal:
  "\<not> contains_any glob_chars spec \<Longrightarrow>
     resolve_local w spec = (if file_exists w spec then Inr [spec] else Inl (file_not_found spec))"
  by (simp add: resolve_local_def)

lemma try_concat_append:
  "try_concat f (xs @ ys) = try_then (try_concat f xs) (\<lambda>as. try_then (try_concat f ys) (\<lambda>bs. Inr (as @ bs)))"
proof (induction xs)
  case Nil
  show ?case by (cases "try_concat f ys") auto
next
  case (Cons x xs)
  show ?case
    by (cases "f x"; cases "try_concat f xs"; cases "try_concat f ys") (simp_all add: Cons)
qed

lemma try_concat_elem:
  "try_concat f xs = Inr ys \<Longrightarrow> y \<in> set ys \<Longrightarrow> \<exists>x zs. x \<in> set xs \<and> f x = Inr zs \<and> y \<in> set zs"
proof (induction xs arbitrary: ys)
  case (Cons x xs)
  then obtain as bs where "f x = Inr as" "try_concat f xs = Inr bs" "ys = as @ bs"
    by (auto simp: try_then_Inr_iff)
  with Cons show ?case by auto
qed simp

lemma location_source_built:
  "location_source w sec ov loc = Inr ss \<Longrightarrow> RemoteSource store path u \<in> set ss \<Longrightarrow>
     build_store w u sec ov = Inr (store, path)"
  by (cases loc) (auto simp: try_then_Inr_iff)

lemma resolve_sources_built:
  assumes "resolve_sources w src sec ov = Inr ss" "RemoteSource store path u \<in> set ss"
  shows "build_store w u sec ov = Inr (store, path)"
proof (cases src)
  case (Paths ps)
  with assms obtain p zs where "path_sources w sec ov p = Inr zs" "RemoteSource store path u \<in> set zs"
    using try_concat_elem [of "path_sources w sec ov" ps ss "RemoteSource store path u"] by auto
  then obtain locs where "try_concat (location_source w sec ov) locs = Inr zs"
    by (auto simp: path_sources_def try_then_Inr_iff)
  with \<open>RemoteSource store path u \<in> set zs\<close> show ?thesis
    using try_concat_elem location_source_built by metis
qed (use assms in auto)

lemma local_path_sources:
  "\<not> is_remote p \<Longrightarrow> path_sources w sec ov p = Inr ss \<Longrightarrow>
     \<exists>qs. resolve_local w p = Inr qs \<and> ss = map LocalSource qs"
proof -
  assume p: "\<not> is_remote p" "path_sources w sec ov p = Inr ss"
  then obtain locs loc where l: "classify w p = Inr loc"
    "(case loc of Local p \<Rightarrow> try_then (resolve_local w p) (\<lambda>ps. Inr (map Local ps))
        | Remote u \<Rightarrow> if contains_any glob_chars (remote_key w u)
            then try_then (list_glob w u sec ov) (\<lambda>us. Inr (map Remote us)) else Inr [Remote u]) = Inr locs"
    "try_concat (location_source w sec ov) locs = Inr ss"
    by (auto simp: path_sources_def resolve_locations_def try_then_Inr_iff)
  from l(1) p(1) have "loc = Local p" by (cases loc) (auto dest: classify_local classify_remote)
  with l obtain qs where "resolve_local w p = Inr qs" "locs = map Local qs"
    by (auto simp: try_then_Inr_iff)
  moreover have "try_concat (location_source w sec ov) (map Local qs) = Inr (map LocalSource qs)"
    by (induction qs) auto
  ultimately show ?thesis using l(3) by auto
qed

subsection \<open>Properties\<close>

text \<open>
  A local path names the files it should: without a wildcard exactly itself, if it exists, and
  otherwise the error "File not found" with its text; with a wildcard the readable matches, each as
  often as the file system lists it, sorted.
\<close>

theorem local_paths_exact:
  "(if contains_any glob_chars spec then
      (case resolve_local w spec of
         Inl e \<Rightarrow> (\<exists>msg. e = ValueError msg) \<and> (\<exists>err. glob_paths w spec = Inl err)
       | Inr ps \<Rightarrow> sorted ps \<and> (\<exists>entries. glob_paths w spec = Inr entries
           \<and> mset ps = mset (List.map_filter ok_of entries)))
    else resolve_local w spec =
      (if file_exists w spec then Inr [spec] else Inl (ValueError (''File not found: '' @ spec))))"
  by (cases "glob_paths w spec") (auto simp: resolve_local_def file_not_found_def)

text \<open>
  Resolution is a homomorphism: the sources of a list of paths are the sources of its parts one
  after the other, in the order written, and the first path that cannot be resolved decides the
  error, whatever follows it.
\<close>

theorem resolve_sources_append:
  "resolve_sources w (Paths (ps @ qs)) sec ov =
     try_then (resolve_sources w (Paths ps) sec ov) (\<lambda>as.
       try_then (resolve_sources w (Paths qs) sec ov) (\<lambda>bs. Inr (as @ bs)))"
  by (simp add: try_concat_append)

text \<open>
  C10: every source is accounted for: a remote source holds the store built for its own URL with the
  call's secrets and overrides, so an \<open>http(s)\<close> one has passed the request guard, and the sources of a
  path without a remote scheme are local files, those \<open>resolve_local\<close> names.
\<close>

theorem sources_guarded:
  assumes "resolve_sources w (Paths paths) sec ov = Inr ss" and "s \<in> set ss"
  shows "case s of
      RemoteSource store path u \<Rightarrow>
        build_store w u sec ov = Inr (store, path)
        \<and> (is_http u \<and> url_host u = Some h \<longrightarrow> guard_host w h = Inr ())
        \<and> list_ex is_remote paths
    | LocalSource q \<Rightarrow> (\<exists>p qs. p \<in> set paths \<and> \<not> is_remote p \<and> resolve_local w p = Inr qs \<and> q \<in> set qs)
    | BytesSource b \<Rightarrow> False"
proof -
  obtain p zs where p: "p \<in> set paths" "path_sources w sec ov p = Inr zs" "s \<in> set zs"
    using assms try_concat_elem [of "path_sources w sec ov" paths ss s] by auto
  show ?thesis
  proof (cases "is_remote p")
    case False
    from local_path_sources [OF this p(2)] p False show ?thesis by fastforce
  next
    case True
    from p(2) obtain locs where locs: "resolve_locations w p sec ov = Inr locs"
      "try_concat (location_source w sec ov) locs = Inr zs"
      by (auto simp: path_sources_def try_then_Inr_iff)
    from locs(1) obtain loc where loc: "classify w p = Inr loc"
      "(case loc of Local p \<Rightarrow> try_then (resolve_local w p) (\<lambda>ps. Inr (map Local ps))
        | Remote u \<Rightarrow> if contains_any glob_chars (remote_key w u)
            then try_then (list_glob w u sec ov) (\<lambda>us. Inr (map Remote us)) else Inr [Remote u]) = Inr locs"
      by (auto simp: resolve_locations_def try_then_Inr_iff)
    from loc(1) True obtain v where "loc = Remote v"
      by (cases loc) (auto dest: classify_local)
    with loc(2) obtain us where us: "locs = map Remote us"
      by (auto simp: try_then_Inr_iff split: if_splits) (metis list.map)
    obtain l ts where "l \<in> set locs" "location_source w sec ov l = Inr ts" "s \<in> set ts"
      using try_concat_elem [OF locs(2) p(3)] by blast
    with us obtain u store path where s: "s = RemoteSource store path u"
      "build_store w u sec ov = Inr (store, path)"
      by (auto simp: try_then_Inr_iff)
    have "list_ex is_remote paths" using True p(1) by (auto simp: list_ex_iff)
    with s build_store_guarded [OF s(2)] show ?thesis by simp
  qed
qed

theorem sources_guarded_witness:
  "\<exists>p qs. p \<in> set [''a.mrt''] \<and> resolve_local sample_world p = Inr qs \<and> ''a.mrt'' \<in> set qs"
proof -
  have "resolve_sources sample_world (Paths [''a.mrt'']) no_secrets [] = Inr [LocalSource ''a.mrt'']"
    by (simp add: path_sources_def resolve_locations_def classify_def resolve_local_def contains_any_def
        glob_chars_def sample_world_def)
  from sources_guarded [OF this, of "LocalSource ''a.mrt''"] show ?thesis by auto
qed

end
