(* ===== verification/Scan.thy ===== *)
theory Scan
  imports Producer
begin

text \<open>
  What a scan promises, independently of batches and checkpoints, and the proof that the producer of
  \<open>Producer\<close> keeps the promise.

  \<^item> \<open>source_run\<close> is the abstract decode of one open source: the chunks of rows its records and
    errors give, in order, and the error that ends it in strict mode. \<open>scan_run\<close> strings the sources
    together; \<open>state_run\<close> says what is left to deliver in a producer state.
  \<^item> \<open>row_supply\<close> is the interface a batch consumer relies on. It is interpreted on \<open>pull_rows\<close>, which
    gives the properties of whole scans.
\<close>

subsection \<open>The abstract scan\<close>

definition err_text :: "('s, 'x, 'e) rt \<Rightarrow> string \<Rightarrow> parser_error \<Rightarrow> string" where
  "err_text rt lbl err = lbl @ '': '' @ show_parser_error (rt_kit rt) err"

definition past :: "u64 option \<Rightarrow> u64 \<Rightarrow> bool" where
  "past sk pos \<longleftrightarrow> (case sk of None \<Rightarrow> True | Some t \<Rightarrow> t < pos)"

inductive source_run ::
  "('s, 'x, 'e) rt \<Rightarrow> bool \<Rightarrow> string \<Rightarrow> stream \<Rightarrow> 'e decoder \<Rightarrow> u64 option
   \<Rightarrow> mrt_row list list \<Rightarrow> rpc_error option \<Rightarrow> bool"
  for rt :: "('s, 'x, 'e) rt" and st :: bool and lbl :: string where
  run_eof: "next_record (rt_kit rt) stream_read r = (Inr None, r') \<Longrightarrow> source_run rt st lbl r d sk [] None"
| run_skip: "next_record (rt_kit rt) stream_read r = (Inr (Some rec), r') \<Longrightarrow>
    \<not> past sk (stream_pos r') \<Longrightarrow>
    source_run rt st lbl r' (snd (record_rows (rt_kit rt) d rec)) sk cs e \<Longrightarrow>
    source_run rt st lbl r d sk cs e"
| run_record: "next_record (rt_kit rt) stream_read r = (Inr (Some rec), r') \<Longrightarrow>
    past sk (stream_pos r') \<Longrightarrow>
    source_run rt st lbl r' (snd (record_rows (rt_kit rt) d rec)) None cs e \<Longrightarrow>
    source_run rt st lbl r d sk (fst (record_rows (rt_kit rt) d rec) # cs) e"
| run_strict: "next_record (rt_kit rt) stream_read r = (Inl err, r') \<Longrightarrow> st \<Longrightarrow>
    source_run rt st lbl r d sk [] (Some (ValueError (err_text rt lbl err)))"
| run_recover: "next_record (rt_kit rt) stream_read r = (Inl err, r') \<Longrightarrow> \<not> st \<Longrightarrow> is_recoverable err \<Longrightarrow>
    source_run rt st lbl r' d None cs e \<Longrightarrow>
    source_run rt st lbl r d sk
      ((if past sk (stream_pos r') then [error_row (err_text rt lbl err)] else []) # cs) e"
| run_torn: "next_record (rt_kit rt) stream_read r = (Inl err, r') \<Longrightarrow> \<not> st \<Longrightarrow> \<not> is_recoverable err \<Longrightarrow>
    source_run rt st lbl r d sk
      [if past sk (stream_pos r') then [error_row (err_text rt lbl err)] else []] None"

inductive scan_run ::
  "('s, 'x, 'e) rt \<Rightarrow> bool \<Rightarrow> 's byte_source list \<Rightarrow> u64 option
   \<Rightarrow> mrt_row list list \<Rightarrow> rpc_error option \<Rightarrow> bool"
  for rt :: "('s, 'x, 'e) rt" and st :: bool where
  scan_nil: "scan_run rt st [] sk [] None"
| scan_open: "open_stream (rt_world rt) s = Inl e \<Longrightarrow> scan_run rt st (s # ss) sk [] (Some e)"
| scan_stop: "open_stream (rt_world rt) s = Inr r \<Longrightarrow>
    source_run rt st (label s) r (decoder_new (rt_kit rt)) sk cs (Some e) \<Longrightarrow>
    scan_run rt st (s # ss) sk cs (Some e)"
| scan_next: "open_stream (rt_world rt) s = Inr r \<Longrightarrow>
    source_run rt st (label s) r (decoder_new (rt_kit rt)) sk cs None \<Longrightarrow>
    scan_run rt st ss None cs' e \<Longrightarrow>
    scan_run rt st (s # ss) sk (cs @ cs') e"

inductive_cases source_runE: "source_run rt st lbl r d sk cs e"
inductive_cases scan_nilE: "scan_run rt st [] sk cs e"
inductive_cases scan_consE: "scan_run rt st (s # ss) sk cs e"

inductive_simps scan_run_nil: "scan_run rt st [] sk cs e"

text \<open>What is left to deliver in a producer state.\<close>

definition then_scan ::
  "('s, 'x, 'e) rt \<Rightarrow> bool \<Rightarrow> 's byte_source list \<Rightarrow> mrt_row list list \<Rightarrow> rpc_error option
   \<Rightarrow> mrt_row list list \<Rightarrow> rpc_error option \<Rightarrow> bool" where
  "then_scan rt st ss cs1 e1 cs e \<longleftrightarrow>
     (case e1 of
        Some err \<Rightarrow> cs = cs1 \<and> e = Some err
      | None \<Rightarrow> (\<exists>cs2. scan_run rt st ss None cs2 e \<and> cs = cs1 @ cs2))"

definition after_source ::
  "('s, 'x, 'e) rt \<Rightarrow> ('s, 'e) producer \<Rightarrow> stream \<Rightarrow> mrt_row list list \<Rightarrow> rpc_error option \<Rightarrow> bool" where
  "after_source rt p r cs e \<longleftrightarrow>
     (\<exists>cs1 e1. source_run rt (strict p) (label (sources p ! idx p)) r (decoder p) (skip_to p) cs1 e1
        \<and> then_scan rt (strict p) (drop (Suc (idx p)) (sources p)) cs1 e1 cs e)"

definition state_run ::
  "('s, 'x, 'e) rt \<Rightarrow> ('s, 'e) producer \<Rightarrow> mrt_row list list \<Rightarrow> rpc_error option \<Rightarrow> bool" where
  "state_run rt p cs e \<longleftrightarrow>
     (if done_flag p then cs = [] \<and> e = None
      else (case reader p of
              None \<Rightarrow> scan_run rt (strict p) (drop (idx p) (sources p)) (skip_to p) cs e
            | Some r \<Rightarrow> idx p < length (sources p) \<and> after_source rt p r cs e))"

subsection \<open>Progress\<close>

text \<open>
  The parser consumes input for everything it does not call the end of the source: a record, or an
  error after which the producer goes on reading, comes after at least one byte was delivered.
\<close>

definition parser_progress :: "('x, 'e) bgpkit \<Rightarrow> bool" where
  "parser_progress kit \<longleftrightarrow>
     must_consume (\<lambda>res. case res of Inr _ \<Rightarrow> True | Inl err \<Rightarrow> is_recoverable err) (parse_mrt_record kit)"

lemma next_record_progress:
  assumes "parser_progress kit" "next_record kit stream_read r = (res, r')"
    and "\<exists>rec. res = Inr (Some rec) \<or> (\<exists>err. res = Inl err \<and> is_recoverable err)"
  shows "length (stream_bytes r') < length (stream_bytes r)"
proof -
  obtain out where "run stream_read (parse_mrt_record kit) r = (out, r')"
    "case out of Inr _ \<Rightarrow> True | Inl err \<Rightarrow> is_recoverable err"
    using assms(2,3) by (auto simp: next_record_cases)
  then show ?thesis
    using assms(1) counting_dyn.run_progress by (fastforce simp: parser_progress_def)
qed

lemma source_run_total:
  assumes "parser_progress (rt_kit rt)"
  shows "\<exists>cs e. source_run rt st lbl r d sk cs e"
proof (induction "length (stream_bytes r)" arbitrary: r d sk rule: less_induct)
  case less
  obtain res r' where nr: "next_record (rt_kit rt) stream_read r = (res, r')" by fastforce
  show ?case
  proof (cases res)
    case (Inl err)
    show ?thesis
    proof (cases "\<not> st \<and> is_recoverable err")
      case True
      with next_record_progress [OF assms nr] Inl less [of r' d None]
      obtain cs e where "source_run rt st lbl r' d None cs e" by blast
      with True nr Inl show ?thesis by (blast intro: run_recover)
    next
      case False
      with nr Inl show ?thesis by (cases st) (blast intro: run_strict run_torn)+
    qed
  next
    case (Inr o_rec)
    show ?thesis
    proof (cases o_rec)
      case None
      with nr Inr show ?thesis by (blast intro: run_eof)
    next
      case (Some rec)
      with next_record_progress [OF assms nr] Inr
      have "length (stream_bytes r') < length (stream_bytes r)" by blast
      from less [OF this, of "snd (record_rows (rt_kit rt) d rec)"] nr Inr Some
      show ?thesis by (cases "past sk (stream_pos r')") (blast intro: run_skip run_record)+
    qed
  qed
qed

lemma scan_run_total:
  assumes "parser_progress (rt_kit rt)"
  shows "\<exists>cs e. scan_run rt st ss sk cs e"
proof (induction ss arbitrary: sk)
  case Nil
  show ?case by (blast intro: scan_nil)
next
  case (Cons s ss)
  show ?case
  proof (cases "open_stream (rt_world rt) s")
    case (Inl e)
    then show ?thesis by (blast intro: scan_open)
  next
    case (Inr r)
    with source_run_total [OF assms] obtain cs e where
      "source_run rt st (label s) r (decoder_new (rt_kit rt)) sk cs e" by blast
    with Inr Cons [of None] show ?thesis by (cases e) (blast intro: scan_stop scan_next)+
  qed
qed

lemma state_run_total:
  assumes "parser_progress (rt_kit rt)" "reader p \<noteq> None \<Longrightarrow> idx p < length (sources p)"
  shows "\<exists>cs e. state_run rt p cs e"
proof (cases "reader p")
  case None
  then show ?thesis
    using scan_run_total [OF assms(1)] by (cases "done_flag p") (simp_all add: state_run_def)
next
  case (Some r)
  obtain cs1 e1 where 1: "source_run rt (strict p) (label (sources p ! idx p)) r (decoder p) (skip_to p) cs1 e1"
    using source_run_total [OF assms(1)] by blast
  obtain cs2 e2 where 2: "scan_run rt (strict p) (drop (Suc (idx p)) (sources p)) None cs2 e2"
    using scan_run_total [OF assms(1)] by blast
  from 1 2 have "\<exists>cs e. after_source rt p r cs e"
    unfolding after_source_def then_scan_def by (cases e1) fastforce+
  with Some assms(2) show ?thesis by (cases "done_flag p") (simp_all add: state_run_def)
qed

subsection \<open>Determinism\<close>

lemma source_run_det:
  "source_run rt st lbl r d sk cs e \<Longrightarrow> source_run rt st lbl r d sk cs' e' \<Longrightarrow> cs' = cs \<and> e' = e"
proof (induction arbitrary: cs' e' rule: source_run.induct)
  case (run_eof r r' d sk)
  from run_eof(2) show ?case by (rule source_runE) (use run_eof(1) in auto)
next
  case (run_skip r rec r' sk d cs e)
  from run_skip(5) show ?case by (rule source_runE) (use run_skip(1,2,4) in auto)
next
  case (run_record r rec r' sk d cs e)
  from run_record(5) show ?case by (rule source_runE) (use run_record(1,2,4) in auto)
next
  case (run_strict r err r' d sk)
  from run_strict(3) show ?case by (rule source_runE) (use run_strict(1,2) in auto)
next
  case (run_recover r err r' d cs e sk)
  from run_recover(6) show ?case by (rule source_runE) (use run_recover(1,2,3,5) in auto)
next
  case (run_torn r err r' d sk)
  from run_torn(4) show ?case by (rule source_runE) (use run_torn(1,2,3) in auto)
qed

lemma scan_run_det:
  "scan_run rt st ss sk cs e \<Longrightarrow> scan_run rt st ss sk cs' e' \<Longrightarrow> cs' = cs \<and> e' = e"
proof (induction arbitrary: cs' e' rule: scan_run.induct)
  case (scan_nil sk)
  then show ?case by (simp add: scan_run_nil)
next
  case (scan_open s e ss sk)
  from scan_open(2) show ?case by (rule scan_consE) (use scan_open(1) in auto)
next
  case (scan_stop s r sk cs e ss)
  from scan_stop(3) show ?case
    by (rule scan_consE) (use scan_stop(1) source_run_det [OF scan_stop(2)] in auto)
next
  case (scan_next s r sk cs ss cs2 e)
  from scan_next(5) show ?case
    by (rule scan_consE) (use scan_next(1,4) source_run_det [OF scan_next(2)] in auto)
qed

lemma after_source_det:
  "after_source rt p r cs e \<Longrightarrow> after_source rt p r cs' e' \<Longrightarrow> cs' = cs \<and> e' = e"
  unfolding after_source_def then_scan_def
  by (auto split: option.splits dest: source_run_det scan_run_det)

lemma state_run_det:
  "state_run rt p cs e \<Longrightarrow> state_run rt p cs' e' \<Longrightarrow> cs' = cs \<and> e' = e"
  by (cases "reader p")
    (auto simp: state_run_def split: if_splits dest: after_source_det scan_run_det)

subsection \<open>One pass of the loop\<close>

lemma read_step_eof:
  "next_record (rt_kit rt) stream_read r = (Inr None, r') \<Longrightarrow> read_step rt p r = Checked (advance p) []"
  by (simp add: read_step_def)

lemma read_step_record:
  "next_record (rt_kit rt) stream_read r = (Inr (Some rec), r') \<Longrightarrow>
   read_step rt p r =
     (let p' = p\<lparr>reader := Some r', decoder := snd (record_rows (rt_kit rt) (decoder p) rec),
                offset := stream_pos r'\<rparr>
      in if past (skip_to p) (stream_pos r')
         then Checked (p'\<lparr>skip_to := None\<rparr>) (fst (record_rows (rt_kit rt) (decoder p) rec))
         else Again p')"
  by (cases "skip_to p") (auto simp: read_step_def past_def split_beta Let_def)

lemma read_step_error:
  "next_record (rt_kit rt) stream_read r = (Inl err, r') \<Longrightarrow>
   read_step rt p r =
     (let msg = err_text rt (label (sources p ! idx p)) err;
          p' = p\<lparr>reader := Some r', offset := stream_pos r'\<rparr>;
          rows = (if past (skip_to p) (stream_pos r') then [error_row msg] else [])
      in if strict p then Abort (ValueError msg) (p\<lparr>reader := Some r'\<rparr>)
         else if is_recoverable err then Checked (p'\<lparr>skip_to := None\<rparr>) rows
         else Checked (advance p') rows)"
  by (cases "skip_to p") (auto simp: read_step_def past_def Let_def source_error_def err_text_def)

lemmas read_step_simps = read_step_eof read_step_record read_step_error

lemma then_scan_Cons:
  "then_scan rt st ss (c # cs3) e1 cs e \<Longrightarrow> \<exists>cs'. cs = c # cs' \<and> then_scan rt st ss cs3 e1 cs' e"
  by (cases e1) (auto simp: then_scan_def)

lemma read_step_run:
  assumes r: "reader p = Some r" "\<not> done_flag p" and run: "state_run rt p cs e"
  shows "case read_step rt p r of
      Abort err p' \<Rightarrow> cs = [] \<and> e = Some err
    | Finished p' \<Rightarrow> False
    | Again p' \<Rightarrow> state_run rt p' cs e
    | Checked p' rows \<Rightarrow>
        \<exists>cs'. state_run rt p' cs' e \<and> (cs = rows # cs' \<or> rows = [] \<and> cs = cs')"
proof -
  let ?lbl = "label (sources p ! idx p)"
  from run r have len: "idx p < length (sources p)" and after: "after_source rt p r cs e"
    by (simp_all add: state_run_def)
  from after obtain cs1 e1 where src: "source_run rt (strict p) ?lbl r (decoder p) (skip_to p) cs1 e1"
    and rest: "then_scan rt (strict p) (drop (Suc (idx p)) (sources p)) cs1 e1 cs e"
    by (auto simp: after_source_def)
  from src show ?thesis
  proof (rule source_runE)
    fix r' assume nr: "next_record (rt_kit rt) stream_read r = (Inr None, r')" and "cs1 = []" "e1 = None"
    with rest have "state_run rt (advance p) cs e"
      using r by (auto simp: state_run_def advance_def then_scan_def)
    with nr show ?thesis by (auto simp: read_step_simps)
  next
    fix rec r' assume nr: "next_record (rt_kit rt) stream_read r = (Inr (Some rec), r')"
      and "\<not> past (skip_to p) (stream_pos r')"
      and go: "source_run rt (strict p) ?lbl r' (snd (record_rows (rt_kit rt) (decoder p) rec)) (skip_to p) cs1 e1"
    then obtain t where t: "skip_to p = Some t" "stream_pos r' \<le> t"
      by (cases "skip_to p") (auto simp: past_def)
    have "after_source rt (p\<lparr>reader := Some r', decoder := snd (record_rows (rt_kit rt) (decoder p) rec),
        offset := stream_pos r'\<rparr>) r' cs e"
      unfolding after_source_def using go rest by (intro exI conjI; simp)
    then show ?thesis using nr t r len
      by (auto simp: read_step_simps past_def state_run_def Let_def)
  next
    fix rec r' cs3 assume nr: "next_record (rt_kit rt) stream_read r = (Inr (Some rec), r')"
      and pst: "past (skip_to p) (stream_pos r')"
      and cs1: "cs1 = fst (record_rows (rt_kit rt) (decoder p) rec) # cs3"
      and go: "source_run rt (strict p) ?lbl r' (snd (record_rows (rt_kit rt) (decoder p) rec)) None cs3 e1"
    obtain cs' where cs': "cs = fst (record_rows (rt_kit rt) (decoder p) rec) # cs'"
      "then_scan rt (strict p) (drop (Suc (idx p)) (sources p)) cs3 e1 cs' e"
      using rest cs1 then_scan_Cons by blast
    have "after_source rt (p\<lparr>reader := Some r', decoder := snd (record_rows (rt_kit rt) (decoder p) rec),
        offset := stream_pos r', skip_to := None\<rparr>) r' cs' e"
      unfolding after_source_def using go cs'(2) by (intro exI conjI; simp)
    then show ?thesis using nr pst cs'(1) r len
      by (auto simp: read_step_simps state_run_def Let_def)
  next
    fix err r' assume nr: "next_record (rt_kit rt) stream_read r = (Inl err, r')" and "strict p"
      and "cs1 = []" "e1 = Some (ValueError (err_text rt ?lbl err))"
    then show ?thesis using rest by (simp add: read_step_simps then_scan_def)
  next
    fix err r' cs3 assume nr: "next_record (rt_kit rt) stream_read r = (Inl err, r')" "\<not> strict p"
      "is_recoverable err"
      and cs1: "cs1 = (if past (skip_to p) (stream_pos r') then [error_row (err_text rt ?lbl err)] else []) # cs3"
      and go: "source_run rt False ?lbl r' (decoder p) None cs3 e1"
    obtain cs' where cs': "cs = (if past (skip_to p) (stream_pos r') then [error_row (err_text rt ?lbl err)] else []) # cs'"
      "then_scan rt (strict p) (drop (Suc (idx p)) (sources p)) cs3 e1 cs' e"
      using rest cs1 then_scan_Cons by blast
    have "after_source rt (p\<lparr>reader := Some r', offset := stream_pos r', skip_to := None\<rparr>) r' cs' e"
      unfolding after_source_def using go cs'(2) nr(2) by (intro exI conjI; simp)
    then show ?thesis using nr cs'(1) r len
      by (auto simp: read_step_simps state_run_def Let_def)
  next
    fix err r' assume nr: "next_record (rt_kit rt) stream_read r = (Inl err, r')" "\<not> strict p"
      "\<not> is_recoverable err"
      and cs1: "cs1 = [if past (skip_to p) (stream_pos r') then [error_row (err_text rt ?lbl err)] else []]"
      and "e1 = None"
    with rest obtain cs2 where cs2: "scan_run rt (strict p) (drop (Suc (idx p)) (sources p)) None cs2 e"
      "cs = cs1 @ cs2" by (auto simp: then_scan_def)
    then have "state_run rt (advance (p\<lparr>reader := Some r', offset := stream_pos r'\<rparr>)) cs2 e"
      using r by (simp add: state_run_def advance_def)
    then show ?thesis using nr cs2(2) cs1 by (auto simp: read_step_simps Let_def)
  qed
qed

lemma open_current_Inr:
  "open_current rt p = Inr p' \<longleftrightarrow>
     (\<exists>r. open_stream (rt_world rt) (sources p ! idx p) = Inr r
        \<and> p' = p\<lparr>reader := Some r, decoder := decoder_new (rt_kit rt), offset := 0\<rparr>)"
  by (auto simp: open_current_def try_then_Inr_iff)

lemma open_current_run:
  assumes "reader p = None" "\<not> done_flag p" "idx p < length (sources p)" "state_run rt p cs e"
  shows "case open_current rt p of
      Inl err \<Rightarrow> cs = [] \<and> e = Some err
    | Inr p' \<Rightarrow> state_run rt p' cs e"
proof -
  from assms(4) have scan: "scan_run rt (strict p) (drop (idx p) (sources p)) (skip_to p) cs e"
    using assms(1,2) by (simp add: state_run_def)
  have "drop (idx p) (sources p) = sources p ! idx p # drop (Suc (idx p)) (sources p)"
    using assms(3) by (rule Cons_nth_drop_Suc [symmetric])
  with scan have "scan_run rt (strict p) (sources p ! idx p # drop (Suc (idx p)) (sources p)) (skip_to p) cs e"
    by simp
  then show ?thesis
  proof (rule scan_consE)
    fix err assume "open_stream (rt_world rt) (sources p ! idx p) = Inl err" "cs = []" "e = Some err"
    then show ?thesis by (simp add: open_current_def)
  next
    fix r err assume "open_stream (rt_world rt) (sources p ! idx p) = Inr r"
      "source_run rt (strict p) (label (sources p ! idx p)) r (decoder_new (rt_kit rt)) (skip_to p) cs (Some err)"
      "e = Some err"
    then show ?thesis using assms by (fastforce simp: open_current_def state_run_def after_source_def then_scan_def)
  next
    fix r cs1 cs2 assume "open_stream (rt_world rt) (sources p ! idx p) = Inr r"
      "source_run rt (strict p) (label (sources p ! idx p)) r (decoder_new (rt_kit rt)) (skip_to p) cs1 None"
      "scan_run rt (strict p) (drop (Suc (idx p)) (sources p)) None cs2 e" "cs = cs1 @ cs2"
    then show ?thesis using assms by (fastforce simp: open_current_def state_run_def after_source_def then_scan_def)
  qed
qed

lemma loop_step_run:
  assumes "\<not> done_flag p" "state_run rt p cs e"
  shows "case loop_step rt p of
      Abort err p' \<Rightarrow> cs = [] \<and> e = Some err
    | Finished p' \<Rightarrow> cs = [] \<and> e = None \<and> done_flag p'
    | Again p' \<Rightarrow> state_run rt p' cs e
    | Checked p' rows \<Rightarrow>
        \<exists>cs'. state_run rt p' cs' e \<and> (cs = rows # cs' \<or> rows = [] \<and> cs = cs')"
proof (cases "reader p")
  case (Some r)
  with read_step_run [OF Some assms] show ?thesis by (auto simp: loop_step_def split: step.splits)
next
  case None
  show ?thesis
  proof (cases "idx p < length (sources p)")
    case False
    with None assms show ?thesis by (simp add: loop_step_def state_run_def scan_run_nil)
  next
    case True
    from open_current_run [OF None assms(1) True assms(2)] show ?thesis
    proof (cases "open_current rt p")
      case (Inl err)
      with open_current_run [OF None assms(1) True assms(2)] None True show ?thesis
        by (simp add: loop_step_def)
    next
      case (Inr p')
      then obtain r where p': "reader p' = Some r" "\<not> done_flag p'"
        using assms(1) by (auto simp: open_current_Inr)
      from open_current_run [OF None assms(1) True assms(2)] Inr have "state_run rt p' cs e" by simp
      from read_step_run [OF p' this] show ?thesis
        using None True Inr p' by (auto simp: loop_step_def split: step.splits)
    qed
  qed
qed

subsection \<open>The loop returns\<close>

text \<open>An open reader belongs to a source; the parts of the producer that never change.\<close>

definition producer_ok :: "('s, 'e) producer \<Rightarrow> bool" where
  "producer_ok p \<longleftrightarrow> (reader p \<noteq> None \<longrightarrow> idx p < length (sources p))"

definition same_scan :: "('s, 'e) producer \<Rightarrow> ('s, 'e) producer \<Rightarrow> bool" where
  "same_scan p q \<longleftrightarrow> sources q = sources p \<and> strict q = strict p \<and> schema q = schema p \<and> kind q = kind p"

definition loop_measure :: "('s, 'e) producer \<Rightarrow> nat \<times> nat \<times> nat" where
  "loop_measure p =
     (length (sources p) - idx p,
      case reader p of None \<Rightarrow> (1, 0) | Some r \<Rightarrow> (0, length (stream_bytes r)))"

definition loop_order :: "(('s, 'e) producer \<times> ('s, 'e) producer) set" where
  "loop_order = inv_image (less_than <*lex*> less_than <*lex*> less_than) loop_measure"

lemma wf_loop_order: "wf loop_order"
  by (simp add: loop_order_def wf_inv_image wf_lex_prod)

lemma loop_order_trans: "(a, b) \<in> loop_order \<Longrightarrow> (b, c) \<in> loop_order \<Longrightarrow> (a, c) \<in> loop_order"
  unfolding loop_order_def
  by (meson trans_inv_image trans_lex_prod trans_less_than transD)

lemma same_scan_refl [simp]: "same_scan p p"
  by (simp add: same_scan_def)

lemma same_scan_trans: "same_scan p q \<Longrightarrow> same_scan q r \<Longrightarrow> same_scan p r"
  by (simp add: same_scan_def)

lemma read_step_next:
  assumes "parser_progress (rt_kit rt)" "reader p = Some r" "idx p < length (sources p)" "\<not> done_flag p"
  shows "case read_step rt p r of
      Again p' \<Rightarrow> (p', p) \<in> loop_order \<and> producer_ok p' \<and> same_scan p p' \<and> \<not> done_flag p'
    | Checked p' rows \<Rightarrow> (p', p) \<in> loop_order \<and> producer_ok p' \<and> same_scan p p' \<and> \<not> done_flag p'
    | Finished p' \<Rightarrow> False
    | Abort e p' \<Rightarrow> True"
proof -
  obtain res r' where nr: "next_record (rt_kit rt) stream_read r = (res, r')" by fastforce
  note less = next_record_progress [OF assms(1) nr]
  show ?thesis
  proof (cases res)
    case (Inl err)
    with nr less assms(2-) show ?thesis
      by (auto simp: read_step_simps Let_def loop_order_def loop_measure_def producer_ok_def same_scan_def
          advance_def)
  next
    case (Inr o_rec)
    with nr less assms(2-) show ?thesis
      by (cases o_rec) (auto simp: read_step_simps Let_def loop_order_def loop_measure_def producer_ok_def
          same_scan_def advance_def)
  qed
qed

lemma loop_step_next:
  assumes "parser_progress (rt_kit rt)" "producer_ok p" "\<not> done_flag p"
  shows "case loop_step rt p of
      Again p' \<Rightarrow> (p', p) \<in> loop_order \<and> producer_ok p' \<and> same_scan p p' \<and> \<not> done_flag p'
    | Checked p' rows \<Rightarrow> (p', p) \<in> loop_order \<and> producer_ok p' \<and> same_scan p p' \<and> \<not> done_flag p'
    | Finished p' \<Rightarrow> producer_ok p' \<and> same_scan p p' \<and> done_flag p'
    | _ \<Rightarrow> True"
proof (cases "reader p")
  case (Some r)
  with assms(2) have "idx p < length (sources p)" by (simp add: producer_ok_def)
  from read_step_next [OF assms(1) Some this assms(3)] Some show ?thesis
    by (auto simp: loop_step_def split: step.splits)
next
  case None
  show ?thesis
  proof (cases "idx p < length (sources p)")
    case False
    with None show ?thesis by (simp add: loop_step_def producer_ok_def same_scan_def)
  next
    case True
    show ?thesis
    proof (cases "open_current rt p")
      case (Inl e)
      with None True show ?thesis by (simp add: loop_step_def)
    next
      case (Inr p')
      then obtain r where p': "p' = p\<lparr>reader := Some r, decoder := decoder_new (rt_kit rt), offset := 0\<rparr>"
        by (auto simp: open_current_Inr)
      then have "(p', p) \<in> loop_order" "same_scan p p'"
        using None by (simp_all add: loop_order_def loop_measure_def same_scan_def)
      moreover have "reader p' = Some r" "idx p' < length (sources p')" "\<not> done_flag p'"
        using p' True assms(3) by simp_all
      note read_step_next [OF assms(1) this]
      ultimately show ?thesis using None True Inr p'
        by (auto simp: loop_step_def split: step.splits dest: same_scan_trans loop_order_trans)
    qed
  qed
qed

subsection \<open>One batch\<close>

text \<open>
  What one call delivers of what is left: an error only when the scan ends with it, and otherwise a
  prefix of the remaining chunks, whole chunks, with a state that still owes exactly the others.
\<close>

definition delivers ::
  "('s, 'x, 'e) rt \<Rightarrow> nat \<Rightarrow> mrt_row list list \<Rightarrow> rpc_error option \<Rightarrow> mrt_row list
   \<Rightarrow> mrt_row list rpc_result \<times> ('s, 'e) producer \<Rightarrow> bool" where
  "delivers rt target cs e pending out \<longleftrightarrow>
     (case out of
        (Inl err, p') \<Rightarrow> e = Some err \<and> length (pending @ concat cs) < target
      | (Inr rows, p') \<Rightarrow>
          (\<exists>now later. rows = pending @ now \<and> concat cs = now @ concat later
             \<and> state_run rt p' later e
             \<and> (if target \<le> length rows then \<exists>c \<in> set cs. length rows < target + length c
                else done_flag p' \<and> later = [] \<and> e = None)))"

lemma delivers_append:
  assumes "delivers rt target cs' e (pending @ rows) (out, q)"
    and "concat cs = rows @ concat cs'" "set cs' \<subseteq> set cs"
  shows "delivers rt target cs e pending (out, q)"
proof (cases out)
  case (Inl err)
  with assms show ?thesis by (simp add: delivers_def)
next
  case (Inr all)
  with assms(1) obtain now later where "all = (pending @ rows) @ now" "concat cs' = now @ concat later"
    "state_run rt q later e"
    "if target \<le> length all then \<exists>c \<in> set cs'. length all < target + length c
     else done_flag q \<and> later = [] \<and> e = None"
    by (auto simp: delivers_def)
  then have "all = pending @ (rows @ now) \<and> concat cs = (rows @ now) @ concat later
      \<and> state_run rt q later e
      \<and> (if target \<le> length all then \<exists>c \<in> set cs. length all < target + length c
         else done_flag q \<and> later = [] \<and> e = None)"
    using assms(2,3) by (auto split: if_splits)
  with Inr show ?thesis unfolding delivers_def by fastforce
qed

lemma pull_loop_unfold:
  "pull_loop rt target p pending =
     (case loop_step rt p of
        Abort e p' \<Rightarrow> Some (Inl e, p')
      | Finished p' \<Rightarrow> Some (Inr pending, p')
      | Again p' \<Rightarrow> pull_loop rt target p' pending
      | Checked p' rows \<Rightarrow>
          if target \<le> length (pending @ rows) then Some (Inr (pending @ rows), p')
          else pull_loop rt target p' (pending @ rows))"
  by (subst pull_loop.simps) (rule refl)

lemma pull_loop_delivers:
  assumes "parser_progress (rt_kit rt)"
  shows "producer_ok p \<Longrightarrow> \<not> done_flag p \<Longrightarrow> state_run rt p cs e \<Longrightarrow> length pending < target \<Longrightarrow>
    \<exists>out p'. pull_loop rt target p pending = Some (out, p')
      \<and> delivers rt target cs e pending (out, p')
      \<and> ((\<exists>rows. out = Inr rows) \<longrightarrow> producer_ok p' \<and> same_scan p p')"
proof (induction p arbitrary: cs pending rule: wf_induct_rule [OF wf_loop_order])
  case (1 p)
  note run = loop_step_run [OF 1(3,4)] and next_ok = loop_step_next [OF assms 1(2,3)]
  show ?case
  proof (cases "loop_step rt p")
    case (Abort err p')
    with run 1(5) show ?thesis by (simp add: pull_loop_unfold [of rt target p] delivers_def)
  next
    case (Finished p')
    with run next_ok 1(5) show ?thesis
      by (simp add: pull_loop_unfold [of rt target p] delivers_def state_run_def)
  next
    case (Again p')
    with run next_ok 1(5) 1(1) [of p' cs pending] obtain out q where
      "pull_loop rt target p' pending = Some (out, q)" "delivers rt target cs e pending (out, q)"
      "(\<exists>rows. out = Inr rows) \<longrightarrow> producer_ok q \<and> same_scan p' q" by auto
    then show ?thesis using Again next_ok
      by (auto simp: pull_loop_unfold [of rt target p] dest: same_scan_trans)
  next
    case (Checked p' rows)
    with run obtain cs' where cs': "state_run rt p' cs' e" "cs = rows # cs' \<or> rows = [] \<and> cs = cs'"
      by auto
    show ?thesis
    proof (cases "target \<le> length (pending @ rows)")
      case True
      with cs'(2) 1(5) have "cs = rows # cs'" by auto
      with True 1(5) cs'(1) have "delivers rt target cs e pending (Inr (pending @ rows), p')"
        by (auto simp: delivers_def)
      with True Checked next_ok show ?thesis by (simp add: pull_loop_unfold [of rt target p])
    next
      case False
      with Checked next_ok cs'(1) 1(1) [of p' cs' "pending @ rows"] obtain out q where
        q: "pull_loop rt target p' (pending @ rows) = Some (out, q)"
        "delivers rt target cs' e (pending @ rows) (out, q)"
        "(\<exists>rows. out = Inr rows) \<longrightarrow> producer_ok q \<and> same_scan p' q" by auto
      have "delivers rt target cs e pending (out, q)"
        using cs'(2) by (intro delivers_append [OF q(2)]) auto
      with q False Checked next_ok show ?thesis
        by (auto simp: pull_loop_unfold [of rt target p] dest: same_scan_trans)
    qed
  qed
qed

lemma pull_rows_delivers:
  assumes "parser_progress (rt_kit rt)" "producer_ok p" "state_run rt p cs e" "0 < target"
  shows "\<exists>out p'. pull_rows rt target p = Some (out, p') \<and> delivers rt target cs e [] (out, p')
      \<and> ((\<exists>rows. out = Inr rows) \<longrightarrow> producer_ok p' \<and> same_scan p p')"
proof (cases "done_flag p")
  case True
  with assms show ?thesis by (simp add: pull_rows_def delivers_def state_run_def)
next
  case False
  from pull_loop_delivers [OF assms(1,2) False assms(3), of "[]" target] assms(4) False
  show ?thesis by (simp add: pull_rows_def)
qed

subsection \<open>The interface of a batch consumer\<close>

text \<open>
  A consumer pulls until it gets nothing or an error. \<open>drains pull p batches e\<close>: starting in state
  \<open>p\<close> it receives these batches and then ends with \<open>e\<close>.
\<close>

inductive drains ::
  "('p \<Rightarrow> ('row list rpc_result \<times> 'p) option) \<Rightarrow> 'p \<Rightarrow> 'row list list \<Rightarrow> rpc_error option \<Rightarrow> bool"
  for pull :: "'p \<Rightarrow> ('row list rpc_result \<times> 'p) option" where
  drain_end: "pull p = Some (Inr [], p') \<Longrightarrow> drains pull p [] None"
| drain_fail: "pull p = Some (Inl err, p') \<Longrightarrow> drains pull p [] (Some err)"
| drain_batch: "pull p = Some (Inr now, p') \<Longrightarrow> now \<noteq> [] \<Longrightarrow> drains pull p' bs e \<Longrightarrow>
    drains pull p (now # bs) e"

inductive_cases drainsE: "drains pull p bs e"

lemma drains_det: "drains pull p bs e \<Longrightarrow> drains pull p bs' e' \<Longrightarrow> bs' = bs \<and> e' = e"
proof (induction arbitrary: bs' e' rule: drains.induct)
  case (drain_end p p')
  from drain_end(2) show ?case by (rule drainsE) (use drain_end(1) in auto)
next
  case (drain_fail p err p')
  from drain_fail(2) show ?case by (rule drainsE) (use drain_fail(1) in auto)
next
  case (drain_batch p now p' bs e)
  from drain_batch(5) show ?case by (rule drainsE) (use drain_batch(1,2,4) in auto)
qed

locale row_supply =
  fixes pull :: "'p \<Rightarrow> ('row list rpc_result \<times> 'p) option"
    and owes :: "'p \<Rightarrow> 'row list \<Rightarrow> rpc_error option \<Rightarrow> bool"
  assumes pull_owed: "owes p rows e \<Longrightarrow>
    \<exists>out p'. pull p = Some (out, p') \<and>
      (case out of
         Inl err \<Rightarrow> e = Some err
       | Inr now \<Rightarrow> \<exists>later. rows = now @ later \<and> owes p' later e \<and> (now = [] \<longrightarrow> later = [] \<and> e = None))"
begin

text \<open>Whatever the batch sizes, the consumer gets a prefix of what is owed, and all of it unless
  the scan ends in an error.\<close>

lemma drain_owed:
  "owes p rows e \<Longrightarrow>
     \<exists>bs lost. drains pull p bs e \<and> rows = concat bs @ lost \<and> (e = None \<longrightarrow> lost = []) \<and> [] \<notin> set bs"
proof (induction "length rows" arbitrary: p rows rule: less_induct)
  case less
  from pull_owed [OF less.prems] obtain out p' where p': "pull p = Some (out, p')"
    "case out of Inl err \<Rightarrow> e = Some err
     | Inr now \<Rightarrow> \<exists>later. rows = now @ later \<and> owes p' later e \<and> (now = [] \<longrightarrow> later = [] \<and> e = None)"
    by blast
  show ?case
  proof (cases out)
    case (Inl err)
    with p' have "drains pull p [] e" by (auto intro: drain_fail)
    moreover have "e \<noteq> None" using Inl p'(2) by simp
    ultimately have "drains pull p [] e \<and> rows = concat [] @ rows \<and> (e = None \<longrightarrow> rows = []) \<and> [] \<notin> set []"
      by auto
    then show ?thesis by blast
  next
    case (Inr now)
    with p'(2) obtain later where later: "rows = now @ later" "owes p' later e"
      "now = [] \<longrightarrow> later = [] \<and> e = None" by auto
    show ?thesis
    proof (cases "now = []")
      case True
      with later p'(1) Inr have "drains pull p [] e \<and> rows = concat [] @ []"
        by (auto intro: drain_end)
      then show ?thesis by fastforce
    next
      case False
      with later(1) have "length later < length rows" by simp
      from less.hyps [OF this later(2)] obtain bs lost where
        "drains pull p' bs e" "later = concat bs @ lost" "e = None \<longrightarrow> lost = []" "[] \<notin> set bs" by blast
      moreover from this(1) p'(1) Inr False have "drains pull p (now # bs) e" by (auto intro: drain_batch)
      ultimately have "drains pull p (now # bs) e \<and> rows = concat (now # bs) @ lost
          \<and> (e = None \<longrightarrow> lost = []) \<and> [] \<notin> set (now # bs)"
        using later(1) False by simp
      then show ?thesis by blast
    qed
  qed
qed

end

text \<open>The producer as a supply: the parts that do not change travel with the state.\<close>

type_synonym ('s, 'x, 'e) mrt_supply = "('s, 'x, 'e) rt \<times> nat \<times> ('s, 'e) producer"

definition mrt_pull ::
  "('s, 'x, 'e) mrt_supply \<Rightarrow> (mrt_row list rpc_result \<times> ('s, 'x, 'e) mrt_supply) option" where
  "mrt_pull = (\<lambda>(rt, target, p). map_option (\<lambda>(out, p'). (out, (rt, target, p'))) (pull_rows rt target p))"

definition mrt_owes :: "('s, 'x, 'e) mrt_supply \<Rightarrow> mrt_row list \<Rightarrow> rpc_error option \<Rightarrow> bool" where
  "mrt_owes = (\<lambda>(rt, target, p) rows e.
     parser_progress (rt_kit rt) \<and> producer_ok p \<and> 0 < target
     \<and> (\<exists>cs. state_run rt p cs e \<and> rows = concat cs))"

interpretation mrt: row_supply mrt_pull mrt_owes
proof
  fix sp :: "('s, 'x, 'e) mrt_supply" and rows e
  assume owes: "mrt_owes sp rows e"
  obtain rt target p where sp: "sp = (rt, target, p)" by (cases sp)
  from owes obtain cs where *: "parser_progress (rt_kit rt)" "producer_ok p" "0 < target"
    "state_run rt p cs e" "rows = concat cs"
    by (auto simp: mrt_owes_def sp)
  from pull_rows_delivers [OF *(1,2,4,3)] obtain out p' where out:
    "pull_rows rt target p = Some (out, p')" "delivers rt target cs e [] (out, p')"
    "(\<exists>rows. out = Inr rows) \<longrightarrow> producer_ok p'" by blast
  have "case out of Inl err \<Rightarrow> e = Some err
     | Inr now \<Rightarrow> \<exists>later. rows = now @ later \<and> mrt_owes (rt, target, p') later e
         \<and> (now = [] \<longrightarrow> later = [] \<and> e = None)"
  proof (cases out)
    case (Inl err)
    with out(2) show ?thesis by (simp add: delivers_def)
  next
    case (Inr now)
    with out(2) obtain later where "concat cs = now @ concat later" "state_run rt p' later e"
      "target \<le> length now \<or> later = [] \<and> e = None"
      by (auto simp: delivers_def split: if_splits)
    with Inr * out(3) show ?thesis by (auto simp: mrt_owes_def)
  qed
  with out(1) show "\<exists>out p'. mrt_pull sp = Some (out, p') \<and>
      (case out of Inl err \<Rightarrow> e = Some err
       | Inr now \<Rightarrow> \<exists>later. rows = now @ later \<and> mrt_owes p' later e \<and> (now = [] \<longrightarrow> later = [] \<and> e = None))"
    by (auto simp: mrt_pull_def sp)
qed

end
