(* ===== verification/Toy_Source.thy ===== *)
theory Toy_Source
  imports Scan Arrow_Columns
begin

text \<open>
  A concrete parser for the witnesses: one byte is one record, a state change whose old state is the
  byte; \<open>0xFF\<close> is a torn tail and \<open>0xFE\<close> a corrupt record that was consumed. The lemmas evaluate
  the streams and the decodes it gives on bytes in memory.
\<close>

definition toy_record :: "u8 \<Rightarrow> unit mrt_record" where
  "toy_record b =
     \<lparr>mrt_header = \<lparr>h_timestamp = 0, h_microsecond_timestamp = None, h_rest = ()\<rparr>,
      mrt_message = Bgp4MpStateChange \<lparr>sc_peer_ip = V4 0, sc_peer_asn = 0, sc_old_state = ucast b,
        sc_new_state = 0\<rparr>\<rparr>"

definition toy_torn :: parser_error where
  "toy_torn = EofError (IoErr UnexpectedEof ''torn'')"

definition toy_parse_byte :: "u8 \<Rightarrow> parser_error + unit mrt_record" where
  "toy_parse_byte b =
     (if b = 0xFF then Inl toy_torn else if b = 0xFE then Inl (OtherError ''corrupt'')
      else Inr (toy_record b))"

definition toy_parse :: "(parser_error + unit mrt_record) rprog" where
  "toy_parse = Rd 1 (\<lambda>ans. case ans of
       Inl e \<Rightarrow> Ret (Inl (IoError e))
     | Inr [] \<Rightarrow> Ret (Inl EofExpected)
     | Inr (b # _) \<Rightarrow> Ret (toy_parse_byte b))"

definition toy_kit :: "(unit, unit) bgpkit" where
  "toy_kit = \<lparr>parse_mrt_record = toy_parse, elementor_new = (),
     set_peer_table = (\<lambda>_ _. ()), record_to_elems = (\<lambda>_ _. ([], ())),
     to_u32_vec_opt = (\<lambda>_ _. None), get_origin_asn_opt = (\<lambda>_. None),
     community_to_string = (\<lambda>_. []),
     show_parser_error = (\<lambda>e. case e of OtherError s \<Rightarrow> s | EofError e \<Rightarrow> io_msg e | _ \<Rightarrow> ''io'')\<rparr>"

definition toy_rt :: "(unit, unit, unit) rt" where
  "toy_rt = \<lparr>rt_world = sample_world, rt_kit = toy_kit, rt_try_new = arrow_try_new\<rparr>"

definition toy_stream :: "u8 list \<Rightarrow> u64 \<Rightarrow> stream" where
  "toy_stream bs n = \<lparr>inner = PlainReader \<lparr>br_buf = bs, br_inner = []\<rparr>, count = n\<rparr>"

definition toy_decoder :: "unit decoder" where
  "toy_decoder = \<lparr>elementor = (), view_name = None\<rparr>"

definition toy_row :: "u8 \<Rightarrow> mrt_row" where
  "toy_row b = default_row\<lparr>r_msg_type := Some StateChange, r_peer_ip := Some (V4 0),
     r_peer_asn := Some 0, r_old_state := Some (ucast b), r_new_state := Some 0\<rparr>"

definition good_bytes :: "u8 list \<Rightarrow> bool" where
  "good_bytes bs \<longleftrightarrow> list_all (\<lambda>b. b < 0x1f) bs"

lemma toy_rt_simps [simp]:
  "rt_world toy_rt = sample_world" "rt_kit toy_rt = toy_kit" "rt_try_new toy_rt = arrow_try_new"
  by (simp_all add: toy_rt_def)

lemma toy_progress: "parser_progress toy_kit"
  by (auto simp: parser_progress_def toy_kit_def toy_parse_def split: sum.split)

lemma toy_decoder_new [simp]: "decoder_new toy_kit = toy_decoder"
  by (simp add: decoder_new_def toy_kit_def toy_decoder_def)

lemma toy_rows [simp]: "record_rows toy_kit toy_decoder (toy_record b) = ([toy_row b], toy_decoder)"
  by (simp add: record_rows_def toy_record_def toy_row_def toy_decoder_def state_change_ts_def default_row_def)

lemma toy_pos [simp]: "stream_pos (toy_stream bs n) = n"
  by (simp add: toy_stream_def)

lemma toy_bytes [simp]: "stream_bytes (toy_stream bs n) = bs"
  by (simp add: toy_stream_def counted_bytes_def buffered_bytes_def)

lemma toy_next:
  "next_record toy_kit stream_read (toy_stream [] n) = (Inr None, toy_stream [] n)"
  "next_record toy_kit stream_read (toy_stream (b # bs) n) =
     (map_sum id Some (toy_parse_byte b), toy_stream bs (n + 1))"
  by (simp_all add: next_record_def toy_kit_def toy_parse_def toy_stream_def counting_read_def
      buf_read_def fill_buf_def buf_capacity_def toy_parse_byte_def toy_torn_def)

lemma toy_parse_good: "b < 0x1f \<Longrightarrow> toy_parse_byte b = Inr (toy_record b)"
  by (auto simp: toy_parse_byte_def)

lemma toy_open:
  assumes "good_bytes (take 1 bs)" "length bs \<le> 8192"
  shows "open_stream sample_world (BytesSource bs) = Inr (toy_stream bs 0)"
proof (cases bs)
  case Nil
  then show ?thesis
    by (simp add: open_stream_def cursor_def decompress_reader_def fill_buf_def buf_new_def
        starts_with_def gzip_magic_def bzip2_magic_def counting_new_def toy_stream_def buf_capacity_def)
next
  case (Cons b rest)
  with assms have "b \<noteq> 0x1f" "b \<noteq> 0x42" by (auto simp: good_bytes_def)
  with Cons assms show ?thesis
    by (simp add: open_stream_def cursor_def decompress_reader_def fill_buf_def buf_new_def
        starts_with_def gzip_magic_def bzip2_magic_def counting_new_def toy_stream_def buf_capacity_def)
qed

lemma toy_source_records:
  "good_bytes bs \<Longrightarrow>
   source_run toy_rt st lbl (toy_stream rest (n + of_nat (length bs))) toy_decoder None cs e \<Longrightarrow>
   source_run toy_rt st lbl (toy_stream (bs @ rest) n) toy_decoder None (map (\<lambda>b. [toy_row b]) bs @ cs) e"
proof (induction bs arbitrary: n)
  case Nil
  then show ?case by simp
next
  case (Cons b bs)
  then have b: "toy_parse_byte b = Inr (toy_record b)" and "good_bytes bs"
    by (simp_all add: good_bytes_def toy_parse_good)
  with Cons.IH [of "n + 1"] Cons.prems(2)
  have "source_run toy_rt st lbl (toy_stream (b # bs @ rest) n) toy_decoder None
      (fst (record_rows (rt_kit toy_rt) toy_decoder (toy_record b)) # map (\<lambda>b. [toy_row b]) bs @ cs) e"
    by (intro run_record [where r' = "toy_stream (bs @ rest) (n + 1)"])
      (simp_all add: toy_next past_def add.assoc)
  then show ?case by simp
qed

lemma toy_source_run:
  assumes "good_bytes bs"
  shows "source_run toy_rt st lbl (toy_stream bs n) toy_decoder None (map (\<lambda>b. [toy_row b]) bs) None"
proof -
  have "source_run toy_rt st lbl (toy_stream [] (n + of_nat (length bs))) toy_decoder None [] None"
    by (auto intro: run_eof simp: toy_next)
  from toy_source_records [OF assms this] show ?thesis by simp
qed

lemma toy_err_text:
  "err_text toy_rt lbl toy_torn = lbl @ '': torn''"
  "err_text toy_rt lbl (OtherError ''corrupt'') = lbl @ '': corrupt''"
  by (simp_all add: err_text_def toy_kit_def toy_torn_def)

lemma toy_torn_tail:
  "source_run toy_rt False lbl (toy_stream [0xFF] n) toy_decoder None [[error_row (lbl @ '': torn'')]] None"
  using run_torn [of toy_rt "toy_stream [0xFF] n" toy_torn "toy_stream [] (n + 1)" False lbl toy_decoder None]
  by (simp add: toy_next toy_parse_byte_def past_def toy_err_text) (simp add: toy_torn_def)

lemma toy_strict_error:
  "source_run toy_rt True lbl (toy_stream (0xFE # bs) n) toy_decoder None [] (Some (ValueError (lbl @ '': corrupt'')))"
  using run_strict [of toy_rt "toy_stream (0xFE # bs) n" "OtherError ''corrupt''" "toy_stream bs (n + 1)" True lbl
      toy_decoder None]
  by (simp add: toy_next toy_parse_byte_def toy_err_text)

lemma toy_scan_run:
  assumes "good_bytes bs" "length bs \<le> 8192"
  shows "scan_run toy_rt st [BytesSource bs] None (map (\<lambda>b. [toy_row b]) bs) None"
proof -
  have "good_bytes (take 1 bs)" using assms(1) by (cases bs) (simp_all add: good_bytes_def)
  then have "scan_run toy_rt st [BytesSource bs] None (map (\<lambda>b. [toy_row b]) bs @ []) None"
    using assms toy_source_run [OF assms(1), of st "label (BytesSource bs)" 0]
    by (intro scan_next scan_nil) (simp_all add: toy_open)
  then show ?thesis by simp
qed

end
