(* ===== verification/Scan_Properties.thy ===== *)
theory Scan_Properties
  imports Toy_Source
begin

text \<open>
  The properties of whole scans (\<open>pull_batch\<close> of \<open>bgp-worker/src/reader.rs\<close>): the producer returns,
  delivers exactly the abstract scan whatever the batch size, and keeps batches whole and bounded.
\<close>

subsection \<open>Lemmas\<close>

lemma producer_new_simps [simp]:
  "reader (producer_new kit sch k st srcs) = None" "done_flag (producer_new kit sch k st srcs) = False"
  "idx (producer_new kit sch k st srcs) = 0" "sources (producer_new kit sch k st srcs) = srcs"
  "skip_to (producer_new kit sch k st srcs) = None" "strict (producer_new kit sch k st srcs) = st"
  "schema (producer_new kit sch k st srcs) = sch" "kind (producer_new kit sch k st srcs) = k"
  by (simp_all add: producer_new_def)

lemma producer_new_ok: "producer_ok (producer_new kit sch k st srcs)"
  by (simp add: producer_ok_def)

lemma state_run_new: "state_run rt (producer_new kit sch k st srcs) cs e \<longleftrightarrow> scan_run rt st srcs None cs e"
  by (simp add: state_run_def)

lemma pull_rows_keeps:
  assumes "parser_progress (rt_kit rt)" "producer_ok p" "pull_rows rt target p = Some (Inr rows, p')" "0 < target"
  shows "producer_ok p' \<and> same_scan p p'"
proof -
  obtain cs e where run: "state_run rt p cs e"
    using state_run_total [OF assms(1), of p] assms(2) by (auto simp: producer_ok_def)
  from pull_rows_delivers [OF assms(1,2) run assms(4)] assms(3) show ?thesis by auto
qed

text \<open>A batch is whole chunks: it ends behind the one that fills it.\<close>

definition whole_chunks ::
  "('s, 'x, 'e) rt \<Rightarrow> nat \<Rightarrow> mrt_row list list \<Rightarrow> rpc_error option \<Rightarrow> mrt_row list \<Rightarrow> mrt_row list
   \<Rightarrow> ('s, 'e) producer \<Rightarrow> bool" where
  "whole_chunks rt target cs e pending rows q \<longleftrightarrow>
     (\<exists>now later. cs = now @ later \<and> rows = pending @ concat now \<and> state_run rt q later e
        \<and> (if target \<le> length rows then now \<noteq> [] \<and> length (pending @ concat (butlast now)) < target
           else done_flag q \<and> later = [] \<and> e = None))"

lemma whole_chunks_last:
  "state_run rt q later e \<Longrightarrow> length pending < target \<Longrightarrow> target \<le> length (pending @ rows) \<Longrightarrow>
    whole_chunks rt target (rows # later) e pending (pending @ rows) q"
  unfolding whole_chunks_def by (intro exI [of _ "[rows]"] exI [of _ later]) simp

lemma whole_chunks_end:
  "state_run rt q [] None \<Longrightarrow> length pending < target \<Longrightarrow> done_flag q \<Longrightarrow>
    whole_chunks rt target [] None pending pending q"
  unfolding whole_chunks_def by simp

lemma whole_chunks_Cons:
  assumes "whole_chunks rt target cs e (pending @ rows) all q"
    and "length (pending @ rows) < target"
  shows "whole_chunks rt target (rows # cs) e pending all q"
proof -
  from assms(1) obtain now later where *: "cs = now @ later" "all = (pending @ rows) @ concat now"
    "state_run rt q later e"
    "if target \<le> length all then now \<noteq> [] \<and> length ((pending @ rows) @ concat (butlast now)) < target
     else done_flag q \<and> later = [] \<and> e = None"
    unfolding whole_chunks_def by blast
  then have "rows # cs = (rows # now) @ later \<and> all = pending @ concat (rows # now) \<and> state_run rt q later e
      \<and> (if target \<le> length all
         then rows # now \<noteq> [] \<and> length (pending @ concat (butlast (rows # now))) < target
         else done_flag q \<and> later = [] \<and> e = None)"
    using assms(2) by (auto split: if_splits)
  then show ?thesis unfolding whole_chunks_def by blast
qed

lemma pull_loop_chunks:
  assumes "parser_progress (rt_kit rt)"
  shows "producer_ok p \<Longrightarrow> \<not> done_flag p \<Longrightarrow> state_run rt p cs e \<Longrightarrow> length pending < target \<Longrightarrow>
    pull_loop rt target p pending = Some (out, q) \<Longrightarrow>
    (case out of
       Inl err \<Rightarrow> e = Some err \<and> length (pending @ concat cs) < target
     | Inr rows \<Rightarrow> whole_chunks rt target cs e pending rows q)"
proof (induction p arbitrary: cs pending rule: wf_induct_rule [OF wf_loop_order])
  case (1 p)
  note run = loop_step_run [OF 1(3,4)] and next_ok = loop_step_next [OF assms 1(2,3)]
    and unfold = pull_loop_unfold [of rt target p]
  show ?case
  proof (cases "loop_step rt p")
    case (Abort err p')
    with run 1(5,6) show ?thesis by (auto simp: unfold)
  next
    case (Finished p')
    with run 1(5,6) whole_chunks_end [of rt p' pending target] show ?thesis by (auto simp: unfold state_run_def)
  next
    case (Again p')
    with run next_ok 1(5,6) 1(1) [of p' cs pending] show ?thesis by (simp add: unfold)
  next
    case (Checked p' rows)
    with run obtain cs' where cs': "state_run rt p' cs' e" "cs = rows # cs' \<or> rows = [] \<and> cs = cs'" by auto
    show ?thesis
    proof (cases "target \<le> length (pending @ rows)")
      case True
      with cs'(2) 1(5) have "cs = rows # cs'" by auto
      moreover have "out = Inr (pending @ rows)" "q = p'" using True Checked 1(6) by (auto simp: unfold)
      ultimately show ?thesis using whole_chunks_last [OF cs'(1) 1(5) True] by simp
    next
      case False
      with Checked next_ok cs'(1) 1(1) [of p' cs' "pending @ rows"] 1(6) have ih:
        "case out of
           Inl err \<Rightarrow> e = Some err \<and> length ((pending @ rows) @ concat cs') < target
         | Inr all \<Rightarrow> whole_chunks rt target cs' e (pending @ rows) all q"
        by (simp add: unfold)
      from cs'(2) show ?thesis
      proof
        assume "cs = rows # cs'"
        with ih False show ?thesis by (cases out) (auto intro: whole_chunks_Cons)
      next
        assume "rows = [] \<and> cs = cs'"
        then have "cs = cs'" "pending @ rows = pending" by simp_all
        with ih show ?thesis by (simp only:)
      qed
    qed
  qed
qed

lemma drain_new:
  assumes "parser_progress (rt_kit rt)" "0 < target" "scan_run rt st srcs None cs e"
  shows "\<exists>bs lost. drains mrt_pull (rt, target, producer_new kit sch k st srcs) bs e
    \<and> concat cs = concat bs @ lost \<and> (e = None \<longrightarrow> lost = []) \<and> [] \<notin> set bs"
proof -
  have "mrt_owes (rt, target, producer_new kit sch k st srcs) (concat cs) e"
    using assms by (auto simp: mrt_owes_def producer_new_ok state_run_new)
  then show ?thesis by (rule mrt.drain_owed)
qed

lemma source_run_rows:
  "source_run rt st lbl r d sk cs e \<Longrightarrow> row \<in> set (concat cs) \<Longrightarrow>
     decoded_row row \<or> \<not> st \<and> (\<exists>err. row = error_row (err_text rt lbl err))"
proof (induction rule: source_run.induct)
  case (run_record r rec r' sk d cs e)
  then show ?case using record_rows_shape [of row "rt_kit rt" d rec] by auto
qed (auto split: if_splits)

lemma source_run_error:
  "source_run rt st lbl r d sk cs e \<Longrightarrow> e = Some er \<Longrightarrow> st \<and> (\<exists>err. er = ValueError (err_text rt lbl err))"
  by (induction rule: source_run.induct) auto

lemma scan_run_rows:
  "scan_run rt st ss sk cs e \<Longrightarrow> row \<in> set (concat cs) \<Longrightarrow>
     decoded_row row \<or> \<not> st \<and> (\<exists>s \<in> set ss. \<exists>err. row = error_row (err_text rt (label s) err))"
proof (induction rule: scan_run.induct)
  case (scan_stop s r sk cs e ss)
  then show ?case using source_run_rows by fastforce
next
  case (scan_next s r sk cs ss cs' e)
  then show ?case using source_run_rows [OF scan_next(2), of row] by auto
qed auto

text \<open>A strict decode that meets no error is the lenient one; otherwise it is a prefix of it.\<close>

lemma strict_source_prefix:
  "source_run rt True lbl r d sk cs e \<Longrightarrow> source_run rt False lbl r d sk cs' e' \<Longrightarrow>
     e' = None \<and> (if e = None then cs' = cs else \<exists>more. cs' = cs @ more)"
proof (induction r d sk cs e arbitrary: cs' e' rule: source_run.induct)
  case (run_eof r r' d sk)
  from run_eof(2) show ?case by (rule source_runE) (use run_eof(1) in auto)
next
  case (run_skip r rec r' sk d cs e)
  from run_skip(5) show ?case by (rule source_runE) (use run_skip(1,2,4) in auto)
next
  case (run_record r rec r' sk d cs e)
  from run_record(5) show ?case
    by (rule source_runE) (use run_record(1,2,4) in \<open>auto split: if_splits\<close>)
next
  case (run_strict r err r' d sk)
  from run_strict(3) have "e' = None"
    using source_run_error by fastforce
  then show ?case by simp
qed auto

lemma strict_scan_prefix:
  "scan_run rt True ss sk cs e \<Longrightarrow> scan_run rt False ss sk cs' e' \<Longrightarrow>
     (if e = None then cs' = cs \<and> e' = None else \<exists>more. cs' = cs @ more)"
proof (induction ss sk cs e arbitrary: cs' e' rule: scan_run.induct)
  case (scan_nil sk)
  then show ?case by (simp add: scan_run_nil)
next
  case (scan_open s e ss sk)
  then show ?case by simp
next
  case (scan_stop s r sk cs e ss)
  from scan_stop(3) show ?case
    by (rule scan_consE) (use scan_stop(1) strict_source_prefix [OF scan_stop(2)] in fastforce)+
next
  case (scan_next s r sk cs ss cs2 e)
  from scan_next(5) show ?case
  proof (rule scan_consE)
    fix e assume "open_stream (rt_world rt) s = Inl e"
    then show ?thesis using scan_next(1) by simp
  next
    fix r2 err assume "open_stream (rt_world rt) s = Inr r2" "source_run rt False (label s) r2 (decoder_new (rt_kit rt)) sk cs' (Some err)"
    then show ?thesis using source_run_error by fastforce
  next
    fix r2 ds ds2 assume "open_stream (rt_world rt) s = Inr r2" "cs' = ds @ ds2"
      "source_run rt False (label s) r2 (decoder_new (rt_kit rt)) sk ds None" "scan_run rt False ss None ds2 e'"
    with scan_next(1) strict_source_prefix [OF scan_next(2)] scan_next(4) show ?thesis
      by (auto split: if_splits)
  qed
qed

subsection \<open>Properties\<close>

text \<open>
  C5: a pull always returns: when the parser consumes input for every record and every error it can
  recover from, \<open>pull_batch\<close> terminates in every producer state with at least a source under its open
  reader, whatever the sources deliver (endless loops over corrupt data included), and the answer is
  a batch, the end or an error.
\<close>

theorem pull_batch_returns:
  assumes "parser_progress (rt_kit rt)" and "producer_ok p"
  shows "\<exists>res p'. pull_batch rt p = Some (res, p')"
proof -
  obtain cs e where "state_run rt p cs e"
    using state_run_total [OF assms(1), of p] assms(2) by (auto simp: producer_ok_def)
  moreover have "0 < batch_rows (rt_world rt)"
    by (rule batch_rows_positive)
  ultimately obtain out p' where "pull_rows rt (batch_rows (rt_world rt)) p = Some (out, p')"
    using pull_rows_delivers [OF assms] by blast
  then show ?thesis by (cases out) (auto simp: pull_batch_def finish_batch_def)
qed

theorem pull_batch_returns_witness:
  "\<exists>res p'. pull_batch toy_rt (producer_new toy_kit rib_schema Rib False [BytesSource [0xFE, 0xFE, 1]]) = Some (res, p')"
  by (rule pull_batch_returns) (simp_all add: toy_progress producer_new_ok)

text \<open>
  C2: a drained producer delivers the abstract scan: pulling until the end gives non-empty batches
  whose rows, concatenated, are exactly the rows of all sources in order; no row is lost, repeated or
  reordered, for every batch target. When the scan ends in an error, the consumer got a prefix and
  then that error.
\<close>

theorem drain_refines_scan:
  assumes "parser_progress (rt_kit rt)" and "0 < target" and "scan_run rt st srcs None cs e"
  shows "\<exists>bs lost. drains mrt_pull (rt, target, producer_new (rt_kit rt) sch k st srcs) bs e
    \<and> concat cs = concat bs @ lost \<and> (e = None \<longrightarrow> lost = []) \<and> [] \<notin> set bs"
  by (rule drain_new [OF assms])

theorem drain_refines_scan_witness:
  "\<exists>bs. drains mrt_pull (toy_rt, 2, producer_new toy_kit rib_schema Rib False [BytesSource [1, 2, 3]]) bs None
    \<and> concat bs = [toy_row 1, toy_row 2, toy_row 3]"
proof -
  have "scan_run toy_rt False [BytesSource [1, 2, 3]] None (map (\<lambda>b. [toy_row b]) [1, 2, 3]) None"
    by (rule toy_scan_run) (simp_all add: good_bytes_def)
  from drain_refines_scan [OF _ _ this, of 2 rib_schema Rib] show ?thesis
    by (auto simp: toy_progress)
qed

text \<open>
  C8: the batch size is not observable in the data: two complete drains of the same sources with
  different batch targets end the same way, and when they end without error their rows agree.
\<close>

theorem batch_size_irrelevant:
  assumes "parser_progress (rt_kit rt)" and "0 < t1" and "0 < t2"
    and "drains mrt_pull (rt, t1, producer_new (rt_kit rt) sch k st srcs) bs1 e1"
    and "drains mrt_pull (rt, t2, producer_new (rt_kit rt) sch k st srcs) bs2 e2"
  shows "e1 = e2 \<and> (e1 = None \<longrightarrow> concat bs1 = concat bs2)"
proof -
  obtain cs e where scan: "scan_run rt st srcs None cs e"
    using scan_run_total [OF assms(1)] by blast
  obtain b1 l1 b2 l2 where
    "drains mrt_pull (rt, t1, producer_new (rt_kit rt) sch k st srcs) b1 e" "concat cs = concat b1 @ l1"
    "e = None \<longrightarrow> l1 = []"
    "drains mrt_pull (rt, t2, producer_new (rt_kit rt) sch k st srcs) b2 e" "concat cs = concat b2 @ l2"
    "e = None \<longrightarrow> l2 = []"
    using drain_new [OF assms(1,2) scan, of "rt_kit rt" sch k]
      drain_new [OF assms(1,3) scan, of "rt_kit rt" sch k] by blast
  moreover from this assms(4,5) have "bs1 = b1" "e1 = e" "bs2 = b2" "e2 = e"
    by (blast dest: drains_det)+
  ultimately show ?thesis by auto
qed

theorem batch_size_irrelevant_witness:
  "\<exists>bs1 bs2. drains mrt_pull (toy_rt, 1, producer_new toy_kit rib_schema Rib False [BytesSource [1, 2, 3]]) bs1 None
    \<and> drains mrt_pull (toy_rt, 2, producer_new toy_kit rib_schema Rib False [BytesSource [1, 2, 3]]) bs2 None
    \<and> concat bs1 = concat bs2"
proof -
  have "scan_run toy_rt False [BytesSource [1, 2, 3]] None (map (\<lambda>b. [toy_row b]) [1, 2, 3]) None"
    by (rule toy_scan_run) (simp_all add: good_bytes_def)
  then obtain bs1 bs2 where
    "drains mrt_pull (toy_rt, 1, producer_new (rt_kit toy_rt) rib_schema Rib False [BytesSource [1, 2, 3]]) bs1 None"
    "drains mrt_pull (toy_rt, 2, producer_new (rt_kit toy_rt) rib_schema Rib False [BytesSource [1, 2, 3]]) bs2 None"
    using drain_new [of toy_rt 1 False "[BytesSource [1, 2, 3]]" _ None "rt_kit toy_rt" rib_schema Rib]
      drain_new [of toy_rt 2 False "[BytesSource [1, 2, 3]]" _ None "rt_kit toy_rt" rib_schema Rib]
      toy_progress toy_rt_simps(2) by (metis zero_less_one zero_less_numeral)
  with batch_size_irrelevant [OF _ _ _ this] show ?thesis by (auto simp: toy_progress)
qed

text \<open>
  C40: the shape of a batch. What is left to deliver comes in chunks, the rows of one record or one error
  each. A delivered batch is whole chunks from the front, so a checkpoint never lies inside a record,
  and the producer then owes exactly the others. Either the batch reaches the target, and it did not
  before its last chunk, so it overshoots by less than that one chunk; or it is everything that was
  left, and the producer is done. An error is reported only when the chunks before it do not reach the
  target, so that no full batch is lost to it.
\<close>

theorem batch_bounds:
  assumes "parser_progress (rt_kit rt)" and "producer_ok p" and "state_run rt p cs e" and "0 < target"
    and "pull_rows rt target p = Some (out, p')"
  shows "case out of
      Inl err \<Rightarrow> e = Some err \<and> length (concat cs) < target
    | Inr rows \<Rightarrow> \<exists>now later. cs = now @ later \<and> rows = concat now \<and> state_run rt p' later e
        \<and> (if target \<le> length rows then now \<noteq> [] \<and> length (concat (butlast now)) < target
           else done_flag p' \<and> later = [] \<and> e = None)"
proof (cases "done_flag p")
  case True
  with assms(3-5) show ?thesis by (auto simp: pull_rows_def state_run_def)
next
  case False
  with assms(5) have "pull_loop rt target p [] = Some (out, p')" by (simp add: pull_rows_def)
  from pull_loop_chunks [OF assms(1,2) False assms(3) _ this] assms(4) show ?thesis
    unfolding whole_chunks_def append_Nil list.size by blast
qed

theorem batch_bounds_witness:
  "case pull_rows toy_rt 5 (producer_new toy_kit rib_schema Rib False [BytesSource [1, 2, 3]]) of
     Some (Inr rows, p') \<Rightarrow> done_flag p' \<and> rows = [toy_row 1, toy_row 2, toy_row 3]
   | _ \<Rightarrow> False"
proof -
  let ?p = "producer_new toy_kit rib_schema Rib False [BytesSource [1, 2, 3]]"
  have run: "state_run toy_rt ?p (map (\<lambda>b. [toy_row b]) [1, 2, 3]) None"
    unfolding state_run_new by (rule toy_scan_run) (simp_all add: good_bytes_def)
  obtain out p' where out: "pull_rows toy_rt 5 ?p = Some (out, p')"
    using pull_rows_delivers [OF _ producer_new_ok run, of 5] toy_progress by auto
  have "0 < (5 :: nat)" by simp
  from batch_bounds [OF toy_progress [folded toy_rt_simps(2)] producer_new_ok run this out] obtain rows now later where
    rows: "out = Inr rows" "map (\<lambda>b. [toy_row b]) [1, 2, 3] = now @ later" "rows = concat now"
    "5 \<le> length rows \<or> done_flag p' \<and> later = []"
    by (auto split: sum.splits if_splits)
  have "concat (map (\<lambda>b. [toy_row b]) [1, 2, 3]) = rows @ concat later" by (simp only: rows(2,3) concat_append)
  then have all: "[toy_row 1, toy_row 2, toy_row 3] = rows @ concat later" by simp
  then have "length [toy_row 1, toy_row 2, toy_row 3] = length rows + length (concat later)"
    by (simp only: length_append)
  then have "length rows \<le> 3" by simp
  with rows(1,4) out all show ?thesis by auto
qed

end
