(* ===== verification/Resume.thy ===== *)
theory Resume
  imports Scan_Properties
begin

text \<open>
  The externalised scan position of \<open>bgp-worker/src/reader.rs\<close>: \<open>encode_resume\<close> and
  \<open>restore_resume\<close>, and what a scan delivers when every batch is pulled by a fresh producer that was
  restored from the position of the last one (the HTTP transport).

  \<^item> \<open>reads\<close> is the history of an open source; \<open>at_boundary\<close> says that the checkpoint describes it.
  \<^item> \<open>resume_safe\<close> says which sources can be resumed exactly: every source in strict mode, and in lenient
    mode sources without decode errors except for a torn tail of the last one. On those the resumed
    scan delivers what the abstract scan has.
\<close>

subsection \<open>Positions\<close>

text \<open>The counter and the bytes still to come add up to the length of the source.\<close>

definition counted :: "nat \<Rightarrow> stream \<Rightarrow> bool" where
  "counted N r \<longleftrightarrow> unat (stream_pos r) + length (stream_bytes r) = N"

lemma next_record_counted:
  assumes "next_record kit stream_read r = (res, r')" "counted N r" "N < 2 ^ 64"
  shows "counted N r'" "stream_pos r \<le> stream_pos r'"
proof -
  obtain out where "run stream_read (parse_mrt_record kit) r = (out, r')"
    using assms(1) by (auto simp: next_record_def split: prod.splits sum.splits if_splits)
  note run = dyn.run_counting [OF this]
  let ?m = "length (stream_bytes r) - length (stream_bytes r')"
  from counting_dyn.run_length [OF \<open>run _ _ r = (out, r')\<close>]
  have le: "length (stream_bytes r') \<le> length (stream_bytes r)" .
  have pos: "stream_pos r' = stream_pos r + of_nat ?m"
    using run by (simp add: counted_bytes_def)
  have "unat (stream_pos r) + ?m < 2 ^ 64"
    using assms(2,3) by (simp add: counted_def)
  then have "unat (stream_pos r') = unat (stream_pos r) + ?m"
    unfolding pos by (simp add: unat_word_ariths unat_of_nat)
  then show "counted N r'" "stream_pos r \<le> stream_pos r'"
    using assms(2) le by (simp_all add: counted_def word_le_nat_alt)
qed

lemma next_record_advances:
  assumes "parser_progress kit" "next_record kit stream_read r = (res, r')" "counted N r" "N < 2 ^ 64"
    and "\<exists>rec. res = Inr (Some rec) \<or> (\<exists>err. res = Inl err \<and> is_recoverable err)"
  shows "stream_pos r < stream_pos r'"
proof -
  have "counted N r'" using next_record_counted [OF assms(2-4)] by blast
  moreover have "length (stream_bytes r') < length (stream_bytes r)"
    using next_record_progress [OF assms(1,2,5)] .
  ultimately show ?thesis using assms(3) by (simp add: counted_def word_less_nat_alt)
qed

lemma open_stream_start: "open_stream w s = Inr r \<Longrightarrow> stream_pos r = 0"
  by (auto simp: open_stream_def try_then_Inr_iff counting_new_def)

lemma open_stream_counted: "open_stream w s = Inr r \<Longrightarrow> counted (length (stream_bytes r)) r"
  by (simp add: counted_def open_stream_start)

subsection \<open>The history of an open source\<close>

inductive reads ::
  "('x, 'e) bgpkit \<Rightarrow> stream \<Rightarrow> 'e decoder \<Rightarrow> (parser_error + 'x mrt_record) list
   \<Rightarrow> stream \<Rightarrow> 'e decoder \<Rightarrow> bool"
  for kit :: "('x, 'e) bgpkit" and r :: stream and d :: "'e decoder" where
  reads_start: "reads kit r d [] r d"
| reads_record: "reads kit r d h r1 d1 \<Longrightarrow> next_record kit stream_read r1 = (Inr (Some rec), r2) \<Longrightarrow>
    reads kit r d (h @ [Inr rec]) r2 (snd (record_rows kit d1 rec))"
| reads_error: "reads kit r d h r1 d1 \<Longrightarrow> next_record kit stream_read r1 = (Inl err, r2) \<Longrightarrow>
    is_recoverable err \<Longrightarrow> reads kit r d (h @ [Inl err]) r2 d1"

lemma reads_counted:
  "reads kit r d h r' d' \<Longrightarrow> counted N r \<Longrightarrow> N < 2 ^ 64 \<Longrightarrow> counted N r' \<and> stream_pos r \<le> stream_pos r'"
  by (induction rule: reads.induct) (auto dest: next_record_counted order_trans)

lemma reads_positive:
  assumes "parser_progress kit"
  shows "reads kit r d h r' d' \<Longrightarrow> counted N r \<Longrightarrow> N < 2 ^ 64 \<Longrightarrow> h \<noteq> [] \<Longrightarrow> stream_pos r < stream_pos r'"
proof (induction rule: reads.induct)
  case (reads_record h r1 d1 rec r2)
  with reads_counted [OF reads_record(1)] have "counted N r1" "stream_pos r \<le> stream_pos r1" by auto
  with next_record_advances [OF assms reads_record(2) \<open>counted N r1\<close> reads_record(5)]
  show ?case by auto
next
  case (reads_error h r1 d1 err r2)
  with reads_counted [OF reads_error(1)] have "counted N r1" "stream_pos r \<le> stream_pos r1" by auto
  with next_record_advances [OF assms reads_error(2) \<open>counted N r1\<close> reads_error(6)] reads_error(3)
  show ?case by auto
qed simp

text \<open>Re-reading a history of records up to the checkpoint leads back to the checkpoint.\<close>

lemma reread_history:
  "reads kit r d h r' d' \<Longrightarrow> kit = rt_kit rt \<Longrightarrow> counted N r \<Longrightarrow> N < 2 ^ 64 \<Longrightarrow> list_all (\<lambda>x. \<not> isl x) h \<Longrightarrow>
     stream_pos r' \<le> t \<Longrightarrow> source_run rt st lbl r' d' (Some t) cs e \<Longrightarrow> source_run rt st lbl r d (Some t) cs e"
proof (induction rule: reads.induct)
  case (reads_record h r1 d1 rec r2)
  have "counted N r1" using reads_counted [OF reads_record(1,5,6)] by blast
  with next_record_counted [OF reads_record(2)] reads_record(6,8) have "stream_pos r1 \<le> t"
    by (meson order_trans)
  moreover have "source_run rt st lbl r1 d1 (Some t) cs e"
    using reads_record(2,4,8,9) run_skip [of rt r1 rec r2 "Some t" st lbl d1 cs e] by (simp add: past_def)
  ultimately show ?case using reads_record by simp
qed simp_all

definition resumes_after :: "('s, 'x, 'e) rt \<Rightarrow> bool \<Rightarrow> stream \<Rightarrow> bool" where
  "resumes_after rt st r \<longleftrightarrow>
     (case next_record (rt_kit rt) stream_read r of
        (Inl err, r') \<Rightarrow> st \<or> is_recoverable err \<or> stream_pos r < stream_pos r'
      | _ \<Rightarrow> True)"

lemma skip_at_checkpoint:
  assumes "parser_progress (rt_kit rt)" "counted N r" "N < 2 ^ 64" "resumes_after rt st r"
    and "source_run rt st lbl r d None cs e"
  shows "source_run rt st lbl r d (Some (stream_pos r)) cs e"
  using assms(5)
proof (rule source_runE)
  fix r' assume "next_record (rt_kit rt) stream_read r = (Inr None, r')" "cs = []" "e = None"
  then show ?thesis by (auto intro: run_eof)
next
  fix rec r' assume "\<not> past None (stream_pos r')"
  then show ?thesis by (simp add: past_def)
next
  fix rec r' cs' assume nr: "next_record (rt_kit rt) stream_read r = (Inr (Some rec), r')"
    and cs: "cs = fst (record_rows (rt_kit rt) d rec) # cs'"
    and go: "source_run rt st lbl r' (snd (record_rows (rt_kit rt) d rec)) None cs' e"
  have "past (Some (stream_pos r)) (stream_pos r')"
    using next_record_advances [OF assms(1) nr assms(2,3)] by (simp add: past_def)
  from run_record [OF nr this go] show ?thesis unfolding cs .
next
  fix err r' assume "next_record (rt_kit rt) stream_read r = (Inl err, r')" "st"
    "cs = []" "e = Some (ValueError (err_text rt lbl err))"
  then show ?thesis by (auto intro: run_strict)
next
  fix err r' cs' assume nr: "next_record (rt_kit rt) stream_read r = (Inl err, r')" "\<not> st" "is_recoverable err"
    and cs: "cs = (if past None (stream_pos r') then [error_row (err_text rt lbl err)] else []) # cs'"
    and go: "source_run rt False lbl r' d None cs' e"
  have "past (Some (stream_pos r)) (stream_pos r')"
    using next_record_advances [OF assms(1) nr(1) assms(2,3)] nr(3) by (simp add: past_def)
  then show ?thesis
    using run_recover [OF nr, where lbl = lbl and d = d and sk = "Some (stream_pos r)" and cs = cs' and e = e]
      go nr(2) cs by (simp add: past_def)
next
  fix err r' assume nr: "next_record (rt_kit rt) stream_read r = (Inl err, r')" "\<not> st" "\<not> is_recoverable err"
    and cs: "cs = [if past None (stream_pos r') then [error_row (err_text rt lbl err)] else []]" "e = None"
  have "past (Some (stream_pos r)) (stream_pos r')"
    using assms(4) nr by (auto simp: resumes_after_def past_def)
  then show ?thesis
    using run_torn [OF nr, where lbl = lbl and d = d and sk = "Some (stream_pos r)"] cs
    by (simp add: past_def)
qed

lemma source_resume:
  assumes "parser_progress (rt_kit rt)" "open_stream (rt_world rt) s = Inr r0"
    and "length (stream_bytes r0) < 2 ^ 64"
    and "reads (rt_kit rt) r0 (decoder_new (rt_kit rt)) h r1 d1" "list_all (\<lambda>x. \<not> isl x) h"
    and "resumes_after rt st r1" "source_run rt st lbl r1 d1 None cs e"
  shows "source_run rt st lbl r0 (decoder_new (rt_kit rt))
    (if 0 < stream_pos r1 then Some (stream_pos r1) else None) cs e"
proof (cases "h = []")
  case True
  with assms(4) have "r1 = r0 \<and> d1 = decoder_new (rt_kit rt)"
    by (cases rule: reads.cases) auto
  with assms(7) open_stream_start [OF assms(2)] show ?thesis by simp
next
  case False
  note c = open_stream_counted [OF assms(2)]
  have "0 < stream_pos r1"
    using reads_positive [OF assms(1,4) c assms(3) False] open_stream_start [OF assms(2)] by simp
  moreover have "counted (length (stream_bytes r0)) r1" using reads_counted [OF assms(4) c assms(3)] by blast
  note skip_at_checkpoint [OF assms(1) this assms(3,6,7)]
  ultimately show ?thesis
    using reread_history [OF assms(4) refl c assms(3,5) order_refl] by simp
qed

subsection \<open>The checkpoint of a producer\<close>

lemma resume_bytes_on:
  assumes "idx p < 2 ^ 64" "idx p < 2 ^ bits"
  shows "restore_resume_on bits q (encode_resume p) =
    (let i = min (idx p) (length (sources q))
     in q\<lparr>idx := i, reader := None, done_flag := (length (sources q) \<le> i),
          skip_to := (if 0 < offset p then Some (offset p) else None)\<rparr>)"
proof -
  have "from_le_bytes (to_le_bytes 8 w) = (w :: u64)" for w by (simp add: from_to_le_bytes)
  moreover have "unat (of_nat (idx p) :: u64) = idx p" using assms(1) by (simp add: unat_of_nat)
  ultimately show ?thesis using assms(2) by (simp add: restore_resume_on_def encode_resume_def Let_def)
qed

lemma resume_bytes:
  assumes "idx p < 2 ^ 64"
  shows "restore_resume q (encode_resume p) =
    (let i = min (idx p) (length (sources q))
     in q\<lparr>idx := i, reader := None, done_flag := (length (sources q) \<le> i),
          skip_to := (if 0 < offset p then Some (offset p) else None)\<rparr>)"
  unfolding restore_resume_def by (rule resume_bytes_on [OF assms assms])

definition at_boundary :: "('s, 'x, 'e) rt \<Rightarrow> ('s, 'e) producer \<Rightarrow> bool" where
  "at_boundary rt p \<longleftrightarrow>
     (case reader p of
        None \<Rightarrow> True
      | Some r \<Rightarrow> offset p = stream_pos r
          \<and> (\<exists>r0 h. open_stream (rt_world rt) (sources p ! idx p) = Inr r0
                \<and> reads (rt_kit rt) r0 (decoder_new (rt_kit rt)) h r (decoder p)
                \<and> (strict p \<longrightarrow> list_all (\<lambda>x. \<not> isl x) h)))"

text \<open>
  The sources a scan can be resumed on: in strict mode all of them, in lenient mode those where no
  decode error is reachable except for a torn tail (of at least one byte) of the last source.
\<close>

definition resume_safe :: "('s, 'x, 'e) rt \<Rightarrow> bool \<Rightarrow> 's byte_source list \<Rightarrow> bool" where
  "resume_safe rt st srcs \<longleftrightarrow>
     (\<forall>i < length srcs. \<forall>r. open_stream (rt_world rt) (srcs ! i) = Inr r \<longrightarrow>
        length (stream_bytes r) < 2 ^ 64
        \<and> (st \<or> (\<forall>h r' d' err r''. reads (rt_kit rt) r (decoder_new (rt_kit rt)) h r' d' \<longrightarrow>
             next_record (rt_kit rt) stream_read r' = (Inl err, r'') \<longrightarrow>
             Suc i = length srcs \<and> \<not> is_recoverable err \<and> stream_pos r' < stream_pos r'')))"

lemma no_recoverable_history:
  assumes "\<And>h r' d' err r''. reads kit r d0 h r' d' \<Longrightarrow>
      next_record kit stream_read r' = (Inl err, r'') \<Longrightarrow> \<not> is_recoverable err"
  shows "reads kit r d0 h r' d' \<Longrightarrow> list_all (\<lambda>x. \<not> isl x) h"
proof (induction rule: reads.induct)
  case (reads_error h r1 d1 err r2)
  with assms show ?case by blast
qed simp_all

text \<open>The history of a boundary, and what can come next on sources that can be resumed.\<close>

lemma safe_boundary:
  assumes "resume_safe rt (strict p) (sources p)" "at_boundary rt p" "reader p = Some r" "idx p < length (sources p)"
  obtains r0 h where "open_stream (rt_world rt) (sources p ! idx p) = Inr r0" "length (stream_bytes r0) < 2 ^ 64"
    "reads (rt_kit rt) r0 (decoder_new (rt_kit rt)) h r (decoder p)" "offset p = stream_pos r"
    "list_all (\<lambda>x. \<not> isl x) h"
    "\<And>err r'. next_record (rt_kit rt) stream_read r = (Inl err, r') \<Longrightarrow>
       strict p \<or> Suc (idx p) = length (sources p) \<and> \<not> is_recoverable err \<and> stream_pos r < stream_pos r'"
proof -
  from assms(2,3) obtain r0 h where h: "open_stream (rt_world rt) (sources p ! idx p) = Inr r0"
    "reads (rt_kit rt) r0 (decoder_new (rt_kit rt)) h r (decoder p)" "offset p = stream_pos r"
    "strict p \<longrightarrow> list_all (\<lambda>x. \<not> isl x) h"
    by (auto simp: at_boundary_def)
  from assms(1,4) h(1) have safe: "length (stream_bytes r0) < 2 ^ 64"
    "strict p \<or> (\<forall>h r' d' err r''. reads (rt_kit rt) r0 (decoder_new (rt_kit rt)) h r' d' \<longrightarrow>
       next_record (rt_kit rt) stream_read r' = (Inl err, r'') \<longrightarrow>
       Suc (idx p) = length (sources p) \<and> \<not> is_recoverable err \<and> stream_pos r' < stream_pos r'')"
    by (auto simp: resume_safe_def)
  have "list_all (\<lambda>x. \<not> isl x) h"
  proof (cases "strict p")
    case True
    with h(4) show ?thesis by simp
  next
    case False
    with safe(2) have "\<not> is_recoverable err"
      if "reads (rt_kit rt) r0 (decoder_new (rt_kit rt)) h' r' d'"
        "next_record (rt_kit rt) stream_read r' = (Inl err, r'')" for h' r' d' err r''
      using that by blast
    from no_recoverable_history [OF this h(2)] show ?thesis .
  qed
  moreover have "strict p \<or> Suc (idx p) = length (sources p) \<and> \<not> is_recoverable err \<and> stream_pos r < stream_pos r'"
    if "next_record (rt_kit rt) stream_read r = (Inl err, r')" for err r'
    using safe(2) h(2) that by blast
  ultimately show ?thesis using that h(1-3) safe(1) by blast
qed

text \<open>One pass keeps the boundary.\<close>

lemma read_step_boundary:
  assumes "reader p = Some r" "at_boundary rt p" "idx p < length (sources p)"
  shows "case read_step rt p r of
      Again p' \<Rightarrow> at_boundary rt p'
    | Checked p' rows \<Rightarrow> at_boundary rt p' \<and> (reader p' \<noteq> None \<longrightarrow> skip_to p' = None)
    | _ \<Rightarrow> True"
proof -
  from assms(1,2) obtain r0 h where h: "open_stream (rt_world rt) (sources p ! idx p) = Inr r0"
    "reads (rt_kit rt) r0 (decoder_new (rt_kit rt)) h r (decoder p)" "strict p \<longrightarrow> list_all (\<lambda>x. \<not> isl x) h"
    by (auto simp: at_boundary_def)
  obtain res r' where nr: "next_record (rt_kit rt) stream_read r = (res, r')" by fastforce
  show ?thesis
  proof (cases res)
    case (Inl err)
    show ?thesis
    proof (cases "is_recoverable err")
      case True
      with reads_error [OF h(2), of err r'] nr Inl h(1,3) show ?thesis
        by (auto simp: read_step_simps Let_def at_boundary_def)
    next
      case False
      with nr Inl show ?thesis by (auto simp: read_step_simps Let_def at_boundary_def advance_def)
    qed
  next
    case (Inr o_rec)
    show ?thesis
    proof (cases o_rec)
      case None
      with nr Inr show ?thesis by (auto simp: read_step_simps at_boundary_def advance_def)
    next
      case (Some rec)
      with reads_record [OF h(2), of rec r'] nr Inr h(1) have "reads (rt_kit rt) r0 (decoder_new (rt_kit rt))
          (h @ [Inr rec]) r' (snd (record_rows (rt_kit rt) (decoder p) rec))" by simp
      moreover have "strict p \<longrightarrow> list_all (\<lambda>x. \<not> isl x) (h @ [Inr rec])" using h(3) by simp
      ultimately show ?thesis using nr Inr Some h(1)
        by (fastforce simp: read_step_simps Let_def at_boundary_def)
    qed
  qed
qed

lemma opened_boundary:
  assumes "open_stream (rt_world rt) (sources p ! idx p) = Inr r"
  shows "at_boundary rt (p\<lparr>reader := Some r, decoder := decoder_new (rt_kit rt), offset := 0\<rparr>)"
  using assms open_stream_start [OF assms] reads_start by (fastforce simp: at_boundary_def)

lemma loop_step_boundary:
  assumes "producer_ok p" "at_boundary rt p"
  shows "case loop_step rt p of
      Again p' \<Rightarrow> at_boundary rt p'
    | Checked p' rows \<Rightarrow> at_boundary rt p' \<and> (reader p' \<noteq> None \<longrightarrow> skip_to p' = None)
    | _ \<Rightarrow> True"
proof (cases "reader p")
  case (Some r)
  with assms(1) have "idx p < length (sources p)" by (simp add: producer_ok_def)
  from read_step_boundary [OF Some assms(2) this] Some show ?thesis by (simp add: loop_step_def)
next
  case None
  show ?thesis
  proof (cases "open_current rt p")
    case (Inl e)
    with None show ?thesis by (simp add: loop_step_def)
  next
    case (Inr p')
    then obtain r where r: "open_stream (rt_world rt) (sources p ! idx p) = Inr r"
      and p': "p' = p\<lparr>reader := Some r, decoder := decoder_new (rt_kit rt), offset := 0\<rparr>"
      by (auto simp: open_current_Inr)
    with opened_boundary [OF r] read_step_boundary [of p' r rt] None Inr show ?thesis
      by (auto simp: loop_step_def)
  qed
qed

text \<open>Where a batch can end on sources that can be resumed: inside a source, or behind the last one.\<close>

definition resumable :: "('s, 'x, 'e) rt \<Rightarrow> ('s, 'e) producer \<Rightarrow> bool" where
  "resumable rt p \<longleftrightarrow> at_boundary rt p \<and>
     (if reader p = None then length (sources p) \<le> idx p else \<not> done_flag p \<and> skip_to p = None)"

lemma read_step_not_finished: "read_step rt p r \<noteq> Finished q"
proof -
  obtain res r' where "next_record (rt_kit rt) stream_read r = (res, r')" by fastforce
  then show ?thesis
    by (cases res; cases "projr res") (auto simp: read_step_simps Let_def)
qed

lemma loop_step_finished:
  "loop_step rt p = Finished q \<Longrightarrow>
     reader p = None \<and> length (sources p) \<le> idx p \<and> q = p\<lparr>done_flag := True\<rparr>"
  by (auto simp: loop_step_def open_current_Inr read_step_not_finished
      split: option.splits if_splits sum.splits)

lemma loop_step_reader:
  assumes "producer_ok p" "at_boundary rt p" "resume_safe rt (strict p) (sources p)"
    and "loop_step rt p = Checked p' rows" "rows \<noteq> []"
  shows "reader p' \<noteq> None \<or> length (sources p') \<le> idx p'"
proof -
  have read: "reader q' \<noteq> None \<or> length (sources q') \<le> idx q'"
    if q: "reader q = Some r" "at_boundary rt q" "idx q < length (sources q)"
      "resume_safe rt (strict q) (sources q)" "read_step rt q r = Checked q' rows" for q r q'
  proof -
    from safe_boundary [OF q(4,2,1,3)] obtain r0 where err:
      "\<And>err r'. next_record (rt_kit rt) stream_read r = (Inl err, r') \<Longrightarrow>
         strict q \<or> Suc (idx q) = length (sources q) \<and> \<not> is_recoverable err \<and> stream_pos r < stream_pos r'"
      by metis
    obtain res r' where nr: "next_record (rt_kit rt) stream_read r = (res, r')" by fastforce
    show ?thesis
    proof (cases res)
      case (Inl e)
      with nr q(5) err show ?thesis
        by (auto simp: read_step_simps Let_def advance_def split: if_splits)
    next
      case (Inr o_rec)
      with nr q(5) assms(5) show ?thesis
        by (cases o_rec) (auto simp: read_step_simps Let_def split: if_splits)
    qed
  qed
  show ?thesis
  proof (cases "reader p")
    case (Some r)
    with assms(1) have "idx p < length (sources p)" by (simp add: producer_ok_def)
    from read [OF Some assms(2) this assms(3)] assms(4) Some show ?thesis by (simp add: loop_step_def)
  next
    case None
    with assms(4) obtain q where q: "open_current rt p = Inr q" and len: "idx p < length (sources p)"
      by (auto simp: loop_step_def split: if_splits sum.splits)
    then obtain r where r: "open_stream (rt_world rt) (sources p ! idx p) = Inr r"
      and q': "q = p\<lparr>reader := Some r, decoder := decoder_new (rt_kit rt), offset := 0\<rparr>"
      by (auto simp: open_current_Inr)
    from opened_boundary [OF r] read [of q r p'] q' len q None assms(3,4) show ?thesis
      by (auto simp: loop_step_def)
  qed
qed

lemma pull_loop_resumable:
  assumes "parser_progress (rt_kit rt)"
  shows "producer_ok p \<Longrightarrow> \<not> done_flag p \<Longrightarrow> at_boundary rt p \<Longrightarrow> resume_safe rt (strict p) (sources p) \<Longrightarrow>
    length pending < target \<Longrightarrow> pull_loop rt target p pending = Some (Inr rows, p') \<Longrightarrow> resumable rt p'"
proof (induction p arbitrary: pending rule: wf_induct_rule [OF wf_loop_order])
  case (1 p)
  note next_ok = loop_step_next [OF assms 1(2,3)] and bound = loop_step_boundary [OF 1(2,4)]
  have pull: "pull_loop rt target p pending = Some (Inr rows, p')" by (rule 1(7))
  show ?case
  proof (cases "loop_step rt p")
    case (Abort e q)
    with pull show ?thesis by (simp add: pull_loop_unfold [of rt target p])
  next
    case (Finished q)
    from loop_step_finished [OF Finished] pull Finished show ?thesis
      by (auto simp: pull_loop_unfold [of rt target p] resumable_def at_boundary_def)
  next
    case (Again q)
    with pull have "pull_loop rt target q pending = Some (Inr rows, p')"
      by (simp add: pull_loop_unfold [of rt target p])
    with Again next_ok bound 1(1) [of q pending] 1(5,6) show ?thesis by (simp add: same_scan_def)
  next
    case (Checked q more)
    show ?thesis
    proof (cases "target \<le> length (pending @ more)")
      case True
      with 1(6) have "more \<noteq> []" by auto
      from loop_step_reader [OF 1(2,4,5) Checked this] True Checked pull next_ok bound show ?thesis
        by (auto simp: pull_loop_unfold [of rt target p] resumable_def)
    next
      case False
      with pull Checked have "pull_loop rt target q (pending @ more) = Some (Inr rows, p')"
        by (simp add: pull_loop_unfold [of rt target p])
      with False Checked next_ok bound 1(1) [of q "pending @ more"] 1(5) show ?thesis
        by (simp add: same_scan_def)
    qed
  qed
qed

lemma state_resume:
  assumes "parser_progress (rt_kit rt)" "producer_ok p" "resumable rt p" "idx p < 2 ^ 64"
    and "resume_safe rt (strict p) (sources p)" "same_scan p q" "state_run rt p cs e"
  shows "state_run rt (restore_resume q (encode_resume p)) cs e"
proof (cases "reader p")
  case None
  with assms have "length (sources q) \<le> min (idx p) (length (sources q))" "cs = [] \<and> e = None"
    by (auto simp: resumable_def same_scan_def state_run_def scan_run_nil split: if_splits)
  then show ?thesis
    by (simp add: resume_bytes [OF assms(4)] Let_def state_run_def)
next
  case (Some r)
  with assms(3) have open_state: "\<not> done_flag p" "skip_to p = None" "at_boundary rt p"
    by (auto simp: resumable_def)
  from Some assms(2) have len: "idx p < length (sources p)" by (simp add: producer_ok_def)
  let ?s = "sources p ! idx p" and ?rest = "drop (Suc (idx p)) (sources p)"
  from safe_boundary [OF assms(5) open_state(3) Some len] obtain r0 h where
    h: "open_stream (rt_world rt) ?s = Inr r0" "length (stream_bytes r0) < 2 ^ 64"
    "reads (rt_kit rt) r0 (decoder_new (rt_kit rt)) h r (decoder p)" "offset p = stream_pos r"
    "list_all (\<lambda>x. \<not> isl x) h"
    and err: "\<And>err r'. next_record (rt_kit rt) stream_read r = (Inl err, r') \<Longrightarrow>
      strict p \<or> Suc (idx p) = length (sources p) \<and> \<not> is_recoverable err \<and> stream_pos r < stream_pos r'"
    by metis
  have "resumes_after rt (strict p) r"
    using err by (auto simp: resumes_after_def split: prod.split sum.split)
  note again = source_resume [OF assms(1) h(1-3,5) this]
  from assms(7) open_state Some obtain cs1 e1 where
    1: "source_run rt (strict p) (label ?s) r (decoder p) None cs1 e1"
    "then_scan rt (strict p) ?rest cs1 e1 cs e"
    by (auto simp: state_run_def after_source_def)
  let ?sk = "if 0 < offset p then Some (offset p) else None"
  from again [OF 1(1)] have run0: "source_run rt (strict p) (label ?s) r0 (decoder_new (rt_kit rt)) ?sk cs1 e1"
    by (simp only: h(4))
  have "scan_run rt (strict p) (?s # ?rest) ?sk cs e"
    using 1(2) run0 h(1) by (cases e1) (auto simp: then_scan_def intro: scan_next scan_stop)
  then have "scan_run rt (strict p) (drop (idx p) (sources p)) ?sk cs e"
    by (simp add: Cons_nth_drop_Suc [OF len])
  then show ?thesis
    using len assms(6) by (simp add: resume_bytes [OF assms(4)] Let_def state_run_def same_scan_def min_def)
qed

lemma restore_ok:
  "producer_ok (restore_resume q (encode_resume p))" if "idx p < 2 ^ 64"
  by (simp add: resume_bytes [OF that] Let_def producer_ok_def)

lemma restore_boundary: "at_boundary rt (restore_resume q (encode_resume p))" if "idx p < 2 ^ 64"
  by (simp add: resume_bytes [OF that] Let_def at_boundary_def)

lemma restore_same: "same_scan q (restore_resume q (encode_resume p))" if "idx p < 2 ^ 64"
  by (simp add: resume_bytes [OF that] Let_def same_scan_def)

lemma pull_rows_resumable:
  assumes "parser_progress (rt_kit rt)" "producer_ok p" "at_boundary rt p" "0 < target"
    and "resume_safe rt (strict p) (sources p)" "done_flag p \<Longrightarrow> length (sources p) \<le> idx p"
    and "pull_rows rt target p = Some (Inr rows, p')"
  shows "resumable rt p'"
proof (cases "done_flag p")
  case True
  with assms(2,3,6,7) show ?thesis by (auto simp: pull_rows_def resumable_def producer_ok_def)
next
  case False
  with pull_loop_resumable [OF assms(1,2) False assms(3,5), of "[]" target rows p'] assms(4,7)
  show ?thesis by (simp add: pull_rows_def)
qed

subsection \<open>The HTTP transport\<close>

text \<open>
  Each response is pulled by a producer rebuilt from the bind parameters: \<open>first\<close> is that fresh
  producer and the token, if any, the position returned with the last batch. The index of a source is
  at most the number of sources, so \<open>few_sources\<close> keeps it in 64 bits.
\<close>

type_synonym ('s, 'x, 'e) http_supply = "('s, 'x, 'e) rt \<times> nat \<times> ('s, 'e) producer \<times> u8 list option"

definition http_state :: "('s, 'e) producer \<Rightarrow> u8 list option \<Rightarrow> ('s, 'e) producer" where
  "http_state first token = (case token of None \<Rightarrow> first | Some bytes \<Rightarrow> restore_resume first bytes)"

definition http_pull ::
  "('s, 'x, 'e) http_supply \<Rightarrow> (mrt_row list rpc_result \<times> ('s, 'x, 'e) http_supply) option" where
  "http_pull = (\<lambda>(rt, target, first, token).
     map_option (\<lambda>(out, p'). (out, (rt, target, first, Some (encode_resume p'))))
       (pull_rows rt target (http_state first token)))"

definition http_owes :: "('s, 'x, 'e) http_supply \<Rightarrow> mrt_row list \<Rightarrow> rpc_error option \<Rightarrow> bool" where
  "http_owes = (\<lambda>(rt, target, first, token) rows e.
     let p = http_state first token
     in parser_progress (rt_kit rt) \<and> 0 < target \<and> length (sources first) < 2 ^ 64
        \<and> resume_safe rt (strict first) (sources first)
        \<and> same_scan first p \<and> producer_ok p \<and> at_boundary rt p
        \<and> (done_flag p \<longrightarrow> length (sources p) \<le> idx p) \<and> idx p \<le> length (sources p)
        \<and> (\<exists>cs. state_run rt p cs e \<and> rows = concat cs))"

text \<open>The index stays within the sources.\<close>

lemma loop_step_idx:
  assumes "parser_progress (rt_kit rt)" "producer_ok p" "\<not> done_flag p" "idx p \<le> length (sources p)"
  shows "case loop_step rt p of
      Abort e p' \<Rightarrow> True
    | Finished p' \<Rightarrow> idx p' \<le> length (sources p')
    | Again p' \<Rightarrow> idx p' \<le> length (sources p')
    | Checked p' rows \<Rightarrow> idx p' \<le> length (sources p')"
proof -
  have "case read_step rt q r of
      Abort e p' \<Rightarrow> True
    | Finished p' \<Rightarrow> False
    | Again p' \<Rightarrow> idx p' \<le> length (sources p')
    | Checked p' rows \<Rightarrow> idx p' \<le> length (sources p')"
    if "idx q < length (sources q)" for q r
  proof -
    obtain res r' where "next_record (rt_kit rt) stream_read r = (res, r')" by fastforce
    with that show ?thesis
      by (cases res; cases "projr res") (auto simp: read_step_simps Let_def advance_def)
  qed
  note read = this
  show ?thesis
  proof (cases "reader p")
    case (Some r)
    with assms(2) read [of p r] show ?thesis
      by (auto simp: loop_step_def producer_ok_def split: step.splits)
  next
    case None
    show ?thesis
    proof (cases "open_current rt p")
      case (Inl e)
      with None assms(4) show ?thesis by (simp add: loop_step_def)
    next
      case (Inr q)
      then obtain r where q: "q = p\<lparr>reader := Some r, decoder := decoder_new (rt_kit rt), offset := 0\<rparr>"
        by (auto simp: open_current_Inr)
      with None Inr assms(4) read [of q r] show ?thesis
        by (auto simp: loop_step_def split: step.splits)
    qed
  qed
qed

lemma pull_loop_idx:
  assumes "parser_progress (rt_kit rt)"
  shows "producer_ok p \<Longrightarrow> \<not> done_flag p \<Longrightarrow> idx p \<le> length (sources p) \<Longrightarrow>
    pull_loop rt target p pending = Some (Inr rows, p') \<Longrightarrow> idx p' \<le> length (sources p')"
proof (induction p arbitrary: pending rule: wf_induct_rule [OF wf_loop_order])
  case (1 p)
  note next_ok = loop_step_next [OF assms 1(2,3)] and idx_ok = loop_step_idx [OF assms 1(2-4)]
  show ?case
  proof (cases "loop_step rt p")
    case (Again q)
    with next_ok idx_ok 1(1) [of q pending] 1(5) show ?thesis
      by (simp add: pull_loop_unfold [of rt target p])
  next
    case (Checked q more)
    with next_ok idx_ok 1(1) [of q "pending @ more"] 1(5) show ?thesis
      by (auto simp: pull_loop_unfold [of rt target p] split: if_splits)
  qed (use 1(5) idx_ok in \<open>auto simp: pull_loop_unfold [of rt target p]\<close>)
qed

interpretation http: row_supply http_pull http_owes
proof
  fix sp :: "('s, 'x, 'e) http_supply" and rows e
  assume owes: "http_owes sp rows e"
  obtain rt target first token where sp: "sp = (rt, target, first, token)" by (cases sp)
  define p where "p = http_state first token"
  from owes obtain cs where *: "parser_progress (rt_kit rt)" "0 < target" "length (sources first) < 2 ^ 64"
    "resume_safe rt (strict first) (sources first)" "same_scan first p" "producer_ok p" "at_boundary rt p"
    "done_flag p \<longrightarrow> length (sources p) \<le> idx p" "idx p \<le> length (sources p)"
    "state_run rt p cs e" "rows = concat cs"
    by (auto simp: http_owes_def sp Let_def p_def)
  have srcs: "sources p = sources first" "strict p = strict first" using *(5) by (simp_all add: same_scan_def)
  from pull_rows_delivers [OF *(1,6,10,2)] obtain out p' where out:
    "pull_rows rt target p = Some (out, p')" "delivers rt target cs e [] (out, p')"
    "(\<exists>rows. out = Inr rows) \<longrightarrow> producer_ok p' \<and> same_scan p p'" by blast
  have "case out of Inl err \<Rightarrow> e = Some err
     | Inr now \<Rightarrow> \<exists>later. rows = now @ later \<and> http_owes (rt, target, first, Some (encode_resume p')) later e
         \<and> (now = [] \<longrightarrow> later = [] \<and> e = None)"
  proof (cases out)
    case (Inl err)
    with out(2) show ?thesis by (simp add: delivers_def)
  next
    case (Inr now)
    with out(2) obtain later where later: "concat cs = now @ concat later" "state_run rt p' later e"
      "target \<le> length now \<or> later = [] \<and> e = None"
      by (auto simp: delivers_def split: if_splits)
    from out(3) Inr have p': "producer_ok p'" "same_scan p p'" by auto
    have res: "resumable rt p'"
      using pull_rows_resumable [OF *(1,6,7,2)] *(4,8) out(1) Inr srcs by auto
    have "idx p' \<le> length (sources p')"
    proof (cases "done_flag p")
      case True
      with out(1) Inr *(9) show ?thesis by (auto simp: pull_rows_def)
    next
      case False
      with pull_loop_idx [OF *(1,6) False *(9)] out(1) Inr show ?thesis by (simp add: pull_rows_def)
    qed
    then have i: "idx p' < 2 ^ 64" using *(3) srcs p'(2) by (simp add: same_scan_def)
    let ?q = "restore_resume first (encode_resume p')"
    have rev_same: "same_scan p' first" using *(5) p'(2) by (simp add: same_scan_def)
    have "resume_safe rt (strict p') (sources p')" using *(4) rev_same by (simp add: same_scan_def)
    from state_resume [OF *(1) p'(1) res i this rev_same later(2)] have "state_run rt ?q later e" .
    moreover have "done_flag ?q \<longrightarrow> length (sources ?q) \<le> idx ?q" "idx ?q \<le> length (sources ?q)"
      by (simp_all add: resume_bytes [OF i] Let_def)
    ultimately have "http_owes (rt, target, first, Some (encode_resume p')) (concat later) e"
      using *(1-4) restore_ok [OF i, of first] restore_boundary [OF i, of rt first] restore_same [OF i, of first]
      by (auto simp: http_owes_def http_state_def Let_def)
    with Inr later * show ?thesis by auto
  qed
  with out(1) show "\<exists>out p'. http_pull sp = Some (out, p') \<and>
      (case out of Inl err \<Rightarrow> e = Some err
       | Inr now \<Rightarrow> \<exists>later. rows = now @ later \<and> http_owes p' later e \<and> (now = [] \<longrightarrow> later = [] \<and> e = None))"
    by (auto simp: http_pull_def sp p_def)
qed

end
