(* ===== verification/Resume_Properties.thy ===== *)
theory Resume_Properties
  imports Resume
begin

text \<open>
  The properties of the scan position of \<open>bgp-worker/src/reader.rs\<close>: what the token is, that a scan
  restored from it after every batch is exact on the sources of \<open>resume_safe\<close>.
\<close>

subsection \<open>Lemmas\<close>

lemma pull_loop_boundary:
  assumes "parser_progress (rt_kit rt)"
  shows "producer_ok p \<Longrightarrow> \<not> done_flag p \<Longrightarrow> at_boundary rt p \<Longrightarrow>
    pull_loop rt target p pending = Some (Inr rows, p') \<Longrightarrow> at_boundary rt p'"
proof (induction p arbitrary: pending rule: wf_induct_rule [OF wf_loop_order])
  case (1 p)
  note next_ok = loop_step_next [OF assms 1(2,3)] and bound = loop_step_boundary [OF 1(2,4)]
  show ?case
  proof (cases "loop_step rt p")
    case (Abort e q)
    with 1(5) show ?thesis by (simp add: pull_loop_unfold [of rt target p])
  next
    case (Finished q)
    from loop_step_finished [OF Finished] 1(5) Finished show ?thesis
      by (auto simp: pull_loop_unfold [of rt target p] at_boundary_def)
  next
    case (Again q)
    with next_ok bound 1(1) [of q pending] 1(5) show ?thesis
      by (simp add: pull_loop_unfold [of rt target p])
  next
    case (Checked q more)
    with next_ok bound 1(1) [of q "pending @ more"] 1(5) show ?thesis
      by (auto simp: pull_loop_unfold [of rt target p] split: if_splits)
  qed
qed

lemma reads_suffix: "reads kit r0 d h r d' \<Longrightarrow> \<exists>pre. stream_bytes r0 = pre @ stream_bytes r"
proof (induction rule: reads.induct)
  case (reads_record h r1 d1 rec r2)
  then show ?case
    using counting_dyn.run_suffix by (fastforce simp: next_record_cases)
next
  case (reads_error h r1 d1 err r2)
  then show ?case
    using counting_dyn.run_suffix by (fastforce simp: next_record_cases)
qed simp

lemma boundary_bytes:
  assumes "reads kit r0 d h r d'" "counted N r0" "N < 2 ^ 64" "stream_pos r0 = 0"
  shows "unat (stream_pos r) + length (stream_bytes r) = length (stream_bytes r0)
    \<and> stream_bytes r = drop (unat (stream_pos r)) (stream_bytes r0)"
proof -
  have "counted N r" using reads_counted [OF assms(1-3)] by blast
  with reads_suffix [OF assms(1)] assms(2,4) show ?thesis by (auto simp: counted_def)
qed

text \<open>The states of one scan: the fresh producer, every state a successful pull leaves, and every fresh
  producer restored from the token of such a state (the HTTP transport).\<close>

inductive reached :: "('s, 'x, 'e) rt \<Rightarrow> nat \<Rightarrow> ('s, 'e) producer \<Rightarrow> ('s, 'e) producer \<Rightarrow> bool"
  for rt :: "('s, 'x, 'e) rt" and target :: nat and first :: "('s, 'e) producer" where
  reached_new: "reached rt target first first"
| reached_pull: "reached rt target first p \<Longrightarrow> pull_rows rt target p = Some (Inr rows, p') \<Longrightarrow>
    reached rt target first p'"
| reached_resumed: "reached rt target first p \<Longrightarrow>
    reached rt target first (restore_resume first (encode_resume p))"

lemma reached_boundary:
  assumes "parser_progress (rt_kit rt)" "0 < target" "length srcs < 2 ^ 64"
  shows "reached rt target first p \<Longrightarrow> first = producer_new kit sch k st srcs \<Longrightarrow>
    producer_ok p \<and> at_boundary rt p \<and> same_scan first p \<and> idx p \<le> length srcs"
proof (induction rule: reached.induct)
  case reached_new
  then show ?case by (simp add: producer_new_ok at_boundary_def)
next
  case (reached_pull p rows p')
  then have p: "producer_ok p" "at_boundary rt p" "same_scan first p" "idx p \<le> length (sources p)"
    by (auto simp: same_scan_def)
  show ?case
  proof (cases "done_flag p")
    case True
    with reached_pull show ?thesis by (simp add: pull_rows_def)
  next
    case False
    then have loop: "pull_loop rt target p [] = Some (Inr rows, p')"
      using reached_pull.hyps(2) by (simp add: pull_rows_def)
    from pull_loop_boundary [OF assms(1) p(1) False p(2) loop] pull_loop_idx [OF assms(1) p(1) False p(4) loop]
      pull_rows_keeps [OF assms(1) p(1) reached_pull.hyps(2) assms(2)] p(3) reached_pull.prems
    show ?thesis by (simp add: same_scan_def)
  qed
next
  case (reached_resumed p)
  then have i: "idx p < 2 ^ 64" using assms(3) by simp
  have "idx (restore_resume first (encode_resume p)) \<le> length srcs"
    using reached_resumed.prems by (simp add: resume_bytes [OF i] Let_def)
  with restore_ok [OF i] restore_boundary [OF i] restore_same [OF i] show ?case by blast
qed

lemma http_drain_new:
  assumes "parser_progress (rt_kit rt)" "0 < target" "length srcs < 2 ^ 64" "resume_safe rt st srcs"
    and "scan_run rt st srcs None cs e"
  shows "\<exists>bs lost. drains http_pull (rt, target, producer_new (rt_kit rt) sch k st srcs, None) bs e
    \<and> concat cs = concat bs @ lost \<and> (e = None \<longrightarrow> lost = []) \<and> [] \<notin> set bs"
proof -
  have "http_owes (rt, target, producer_new (rt_kit rt) sch k st srcs, None) (concat cs) e"
    using assms by (auto simp: http_owes_def http_state_def producer_new_ok state_run_new at_boundary_def)
  then show ?thesis by (rule http.drain_owed)
qed

subsection \<open>Evaluating toy scans\<close>

definition toy_producer :: "unit byte_source list \<Rightarrow> (unit, unit) producer" where
  "toy_producer srcs = producer_new toy_kit rib_schema Rib False srcs"

definition toy_at :: "unit byte_source list \<Rightarrow> nat \<Rightarrow> stream option \<Rightarrow> u64 \<Rightarrow> u64 option \<Rightarrow> bool
    \<Rightarrow> (unit, unit) producer" where
  "toy_at srcs i r off sk dn =
     \<lparr>schema = rib_schema, kind = Rib, strict = False, sources = srcs, idx = i, reader = r,
      decoder = toy_decoder, offset = off, skip_to = sk, done_flag = dn\<rparr>"

lemma toy_at_simps [simp]:
  "reader (toy_at srcs i r off sk dn) = r" "idx (toy_at srcs i r off sk dn) = i"
  "offset (toy_at srcs i r off sk dn) = off" "sources (toy_at srcs i r off sk dn) = srcs"
  "done_flag (toy_at srcs i r off sk dn) = dn"
  by (simp_all add: toy_at_def)

lemma toy_producer_at: "toy_producer srcs = toy_at srcs 0 None 0 None False"
  by (simp add: toy_producer_def toy_at_def producer_new_def)

lemma toy_open_step:
  assumes "i < length srcs" "srcs ! i = BytesSource bs" "good_bytes (take 1 bs)" "length bs \<le> 8192"
  shows "loop_step toy_rt (toy_at srcs i None off sk False)
    = loop_step toy_rt (toy_at srcs i (Some (toy_stream bs 0)) 0 sk False)"
  using assms toy_open [OF assms(3,4)]
  by (simp add: loop_step_def open_current_def) (simp add: toy_at_def)

lemma toy_record_step:
  assumes "b < 0x1f"
  shows "loop_step toy_rt (toy_at srcs i (Some (toy_stream (b # bs) n)) off sk False)
    = (if past sk (n + 1) then Checked (toy_at srcs i (Some (toy_stream bs (n + 1))) (n + 1) None False) [toy_row b]
       else Again (toy_at srcs i (Some (toy_stream bs (n + 1))) (n + 1) sk False))"
  using assms
  by (simp add: loop_step_def read_step_simps toy_next toy_parse_good) (simp add: toy_at_def)

lemma toy_pull:
  "pull_rows toy_rt target (toy_at srcs i r off sk False) = pull_loop toy_rt target (toy_at srcs i r off sk False) []"
  "pull_rows toy_rt target (toy_at srcs i r off sk True) = Some (Inr [], toy_at srcs i r off sk True)"
  by (simp_all add: pull_rows_def)

lemma http_pull_eq:
  "pull_rows rt t (http_state first token) = Some (out, p') \<Longrightarrow>
     http_pull (rt, t, first, token) = Some (out, (rt, t, first, Some (encode_resume p')))"
  by (simp add: http_pull_def)

lemma http_batch:
  "pull_rows rt t (http_state first token) = Some (Inr now, p') \<Longrightarrow> now \<noteq> [] \<Longrightarrow>
     drains http_pull (rt, t, first, Some (encode_resume p')) bs e \<Longrightarrow>
     drains http_pull (rt, t, first, token) (now # bs) e"
  by (rule drain_batch [where pull = http_pull, OF http_pull_eq])

lemma http_end:
  "pull_rows rt t (http_state first token) = Some (Inr [], p') \<Longrightarrow>
     drains http_pull (rt, t, first, token) [] None"
  by (rule drain_end [where pull = http_pull, OF http_pull_eq])

subsection \<open>Properties\<close>

text \<open>
  C9: the token round trip: \<open>encode_resume\<close> is 16 bytes, and restoring a producer from the token of
  another one of the same scan puts it at that source (clamped to the sources it has), closed, with
  the offset as the fast-forward target unless it is 0 and done exactly when no source is left; a
  token shorter than 16 bytes changes nothing. With the 32-bit \<open>usize\<close> of the wasm32 build, restoring
  does the same as long as the index fits into it.
\<close>

theorem token_roundtrip:
  assumes "idx p < 2 ^ 64" and "length short < 16"
  shows "length (encode_resume p) = 16
    \<and> restore_resume q (encode_resume p) =
        q\<lparr>idx := min (idx p) (length (sources q)), reader := None,
          done_flag := (length (sources q) \<le> min (idx p) (length (sources q))),
          skip_to := (if 0 < offset p then Some (offset p) else None)\<rparr>
    \<and> restore_resume q short = q
    \<and> (idx p < 2 ^ 32 \<longrightarrow> restore_resume_on 32 q (encode_resume p) = restore_resume q (encode_resume p))"
proof -
  have "length (encode_resume p) = 16" by (simp add: encode_resume_def)
  moreover have "restore_resume q short = q" using assms(2) by (simp add: restore_resume_defs)
  ultimately show ?thesis by (simp add: resume_bytes [OF assms(1)] resume_bytes_on [OF assms(1)] Let_def)
qed

theorem token_roundtrip_witness:
  "idx (restore_resume (toy_producer [BytesSource [1], BytesSource [2]])
      (encode_resume (toy_at [BytesSource [1], BytesSource [2]] 1 None 7 None False))) = 1
   \<and> restore_resume (toy_producer []) [0, 1] = toy_producer []"
  using token_roundtrip [of "toy_at [BytesSource [1], BytesSource [2]] 1 None 7 None False" "[0, 1]"
      "toy_producer [BytesSource [1], BytesSource [2]]"]
    token_roundtrip [of "toy_at [BytesSource [1], BytesSource [2]] 1 None 7 None False" "[0, 1]"
      "toy_producer []"]
  by (simp add: toy_producer_at)

text \<open>
  C27: a checkpoint lies on a record boundary and counts the decompressed bytes. In every state of a
  scan, resumed or not, that has a source open: the reader is where decoding that source from its
  start leads after a whole number of records (and, without \<open>strict\<close>, of errors it recovered from),
  with the decoder those records leave; \<open>offset\<close> is the number of bytes of the source consumed so
  far, neither more nor less, and what the reader has still to deliver is the rest of the source from
  there; and the token carries the index of the source and this offset. The source, decompressed, has
  to be shorter than \<open>2^64\<close> bytes, and there are fewer than \<open>2^64\<close> sources.
\<close>

theorem checkpoint_offset:
  assumes "parser_progress (rt_kit rt)" and "0 < target" and "length srcs < 2 ^ 64"
    and "reached rt target (producer_new (rt_kit rt) sch k st srcs) p" and "reader p = Some r"
    and "case open_stream (rt_world rt) (srcs ! idx p) of Inr r0 \<Rightarrow> length (stream_bytes r0) < 2 ^ 64 | _ \<Rightarrow> False"
  shows "idx p < length srcs
    \<and> (\<exists>r0 h. open_stream (rt_world rt) (srcs ! idx p) = Inr r0
        \<and> reads (rt_kit rt) r0 (decoder_new (rt_kit rt)) h r (decoder p)
        \<and> (st \<longrightarrow> list_all (\<lambda>x. \<not> isl x) h)
        \<and> unat (offset p) + length (stream_bytes r) = length (stream_bytes r0)
        \<and> stream_bytes r = drop (unat (offset p)) (stream_bytes r0))
    \<and> encode_resume p = to_le_bytes 8 (of_nat (idx p) :: u64) @ to_le_bytes 8 (offset p)
    \<and> unat (from_le_bytes (take 8 (encode_resume p)) :: u64) = idx p
    \<and> from_le_bytes (drop 8 (encode_resume p)) = offset p"
proof -
  from reached_boundary [OF assms(1-4) refl] have p: "producer_ok p" "at_boundary rt p"
    "sources p = srcs" "strict p = st" by (simp_all add: same_scan_def)
  with assms(5) have i: "idx p < length srcs" by (simp add: producer_ok_def)
  from p assms(5) obtain r0 h where h: "open_stream (rt_world rt) (srcs ! idx p) = Inr r0"
    "reads (rt_kit rt) r0 (decoder_new (rt_kit rt)) h r (decoder p)" "offset p = stream_pos r"
    "st \<longrightarrow> list_all (\<lambda>x. \<not> isl x) h"
    by (auto simp: at_boundary_def)
  have "length (stream_bytes r0) < 2 ^ 64" using assms(6) h(1) by simp
  from boundary_bytes [OF h(2) open_stream_counted [OF h(1)] this open_stream_start [OF h(1)]] h
  have "\<exists>r0 h. open_stream (rt_world rt) (srcs ! idx p) = Inr r0
      \<and> reads (rt_kit rt) r0 (decoder_new (rt_kit rt)) h r (decoder p)
      \<and> (st \<longrightarrow> list_all (\<lambda>x. \<not> isl x) h)
      \<and> unat (offset p) + length (stream_bytes r) = length (stream_bytes r0)
      \<and> stream_bytes r = drop (unat (offset p)) (stream_bytes r0)" by auto
  moreover have "unat (of_nat (idx p) :: u64) = idx p" using i assms(3) by (simp add: unat_of_nat)
  ultimately show ?thesis using i by (simp add: encode_resume_def from_to_le_bytes)
qed

theorem checkpoint_offset_witness:
  "\<exists>r0 h. open_stream sample_world (BytesSource [1, 2, 3]) = Inr r0
    \<and> reads toy_kit r0 toy_decoder h (toy_stream [3] 2) toy_decoder \<and> 2 + length [3 :: u8] = length (stream_bytes r0)
    \<and> [3] = drop 2 (stream_bytes r0)"
proof -
  let ?srcs = "[BytesSource [1, 2, 3]]" and ?r = "toy_stream [3] 2"
  let ?p = "toy_at ?srcs 0 (Some ?r) 2 None False"
  have g: "good_bytes (take 1 [1, 2, 3])" by (simp add: good_bytes_def)
  have pull: "pull_rows toy_rt 2 (toy_at ?srcs 0 None 0 None False) = Some (Inr [toy_row 1, toy_row 2], ?p)"
    by (simp add: toy_pull pull_loop_unfold toy_open_step [OF _ _ g] toy_record_step past_def)
  have "reached toy_rt 2 (toy_producer ?srcs) ?p"
    by (rule reached_pull [OF reached_new]) (simp only: toy_producer_at pull)
  then have "reached toy_rt 2 (producer_new (rt_kit toy_rt) rib_schema Rib False ?srcs) ?p"
    by (simp only: toy_producer_def toy_rt_simps)
  from checkpoint_offset [OF _ _ _ this, of ?r] toy_open [OF g]
  show ?thesis by (simp add: toy_progress) (simp add: toy_at_def)
qed

text \<open>
  C3: resuming is exact on sources that are safe to resume, that is in strict mode always, and in
  lenient mode when the sources have no decode errors except for a torn tail of the last one: when
  every response of a scan is pulled by a fresh producer restored from the last token, the rows of
  all batches are exactly the rows of the scan, for every batch target (an error at the end may cut
  off the rows of the unfinished batch), and the scan ends with the same error.
\<close>

theorem resumed_scan_exact:
  assumes "parser_progress (rt_kit rt)" and "0 < target" and "length srcs < 2 ^ 64"
    and "resume_safe rt st srcs" and "scan_run rt st srcs None cs e"
  shows "\<exists>bs lost. drains http_pull (rt, target, producer_new (rt_kit rt) sch k st srcs, None) bs e
    \<and> concat cs = concat bs @ lost \<and> (e = None \<longrightarrow> lost = []) \<and> [] \<notin> set bs"
  by (rule http_drain_new [OF assms])

lemma toy_reads:
  "reads toy_kit (toy_stream bs 0) toy_decoder h r' d' \<Longrightarrow> \<exists>bs' n. r' = toy_stream bs' n \<and> set bs' \<subseteq> set bs"
proof (induction rule: reads.induct)
  case (reads_record h r1 d1 rec r2)
  then obtain bs' n where "r1 = toy_stream bs' n" "set bs' \<subseteq> set bs" by blast
  with reads_record show ?case by (cases bs') (auto simp: toy_next)
next
  case (reads_error h r1 d1 err r2)
  then obtain bs' n where "r1 = toy_stream bs' n" "set bs' \<subseteq> set bs" by blast
  with reads_error show ?case by (cases bs') (auto simp: toy_next)
qed blast

lemma toy_resume_safe:
  assumes "good_bytes (take 1 bs)" "length bs \<le> 8192" "st \<or> 0xFE \<notin> set bs"
  shows "resume_safe toy_rt st [BytesSource bs]"
proof -
  have tail: "\<not> is_recoverable err \<and> stream_pos r' < stream_pos r''"
    if r: "reads toy_kit (toy_stream bs 0) toy_decoder h r' d'"
      "next_record toy_kit stream_read r' = (Inl err, r'')" "0xFE \<notin> set bs" for h r' d' err r''
  proof -
    from toy_reads [OF r(1)] obtain bs' n where bs': "r' = toy_stream bs' n" "set bs' \<subseteq> set bs" by blast
    have "counted (length bs) (toy_stream bs 0)" by (simp add: counted_def)
    with reads_counted [OF r(1) this] assms(2) bs'(1) have "unat n + length bs' = length bs"
      by (simp add: counted_def)
    with assms(2) have "bs' \<noteq> [] \<Longrightarrow> n < n + 1"
      by (cases bs') (simp_all add: word_less_nat_alt unat_word_ariths)
    with r(2,3) bs' show ?thesis
      by (cases bs') (auto simp: toy_next toy_parse_byte_def toy_torn_def split: if_splits)
  qed
  with assms(3) toy_open [OF assms(1,2)] assms(2) show ?thesis
    by (auto simp: resume_safe_def)
qed

theorem resumed_scan_exact_witness:
  "(\<exists>bs. drains http_pull (toy_rt, 2, producer_new toy_kit rib_schema Rib False [BytesSource [1, 2, 3, 0xFF]], None) bs None
      \<and> concat bs = [toy_row 1, toy_row 2, toy_row 3, error_row ''<blob>: torn''])
   \<and> (\<exists>bs. drains http_pull (toy_rt, 2, producer_new toy_kit rib_schema Rib True [BytesSource [1, 0xFE, 2]], None) bs
        (Some (ValueError ''<blob>: corrupt'')))"
proof -
  have g: "good_bytes [1, 2, 3]" "good_bytes [1]" "good_bytes (take 1 [1, 2, 3, 0xFF])" "good_bytes (take 1 [1, 0xFE, 2])"
    by (simp_all add: good_bytes_def)
  have "scan_run toy_rt False [BytesSource [1, 2, 3, 0xFF]] None
      ((map (\<lambda>b. [toy_row b]) [1, 2, 3] @ [[error_row (label (BytesSource [1, 2, 3, 0xFF] :: unit byte_source) @ '': torn'')]]) @ []) None"
    using toy_source_records [OF g(1) toy_torn_tail [of "''<blob>''"], where n = 0] toy_open [OF g(3)]
    by (intro scan_next scan_nil) simp_all
  from resumed_scan_exact [OF _ _ _ toy_resume_safe this, of 2 rib_schema Rib] g(3)
  have lenient: "\<exists>bs. drains http_pull (toy_rt, 2, producer_new toy_kit rib_schema Rib False [BytesSource [1, 2, 3, 0xFF]], None) bs None
      \<and> concat bs = [toy_row 1, toy_row 2, toy_row 3, error_row ''<blob>: torn'']"
    by (auto simp: toy_progress)
  have "scan_run toy_rt True [BytesSource [1, 0xFE, 2]] None (map (\<lambda>b. [toy_row b]) [1] @ [])
      (Some (ValueError (label (BytesSource [1, 0xFE, 2] :: unit byte_source) @ '': corrupt'')))"
    using toy_source_records [OF g(2) toy_strict_error [of "''<blob>''"], where n = 0] toy_open [OF g(4)]
    by (intro scan_stop) simp_all
  from resumed_scan_exact [OF _ _ _ toy_resume_safe this, of 2 rib_schema Rib] g(4) lenient
  show ?thesis by (auto simp: toy_progress)
qed

end
