(* ===== verification/Table_Functions.thy ===== *)
theory Table_Functions
  imports Resume_Properties
begin

text \<open>
  The three table functions of \<open>bgp-worker/src/table/\<close>: argument specifications, secret requests, bind
  and producer construction of \<open>read_rib\<close>, \<open>read_updates\<close> and \<open>peers\<close>, and the whole of
  \<open>PeersProducer\<close>, whose one batch lists the distinct peers of its sources. The lemmas show that the
  enumeration returns, what it lists, and how binding treats the paths it is given.
\<close>

subsection \<open>The common interface\<close>

definition read_rib_arg_specs :: "arg_spec list" where
  \<open>read_rib_arg_specs =
     [const_arg ''src'' 0 ''any''
        (''The RIB dump to read: a path (local, a glob, `s3://bucket/key`, or ''
         @ ''`https://host/file`), several such paths in a list, or inline MRT bytes. ''
         @ ''gzip/bzip2 archives are decompressed automatically.'')]
     @ common_arg_specs\<close>

definition read_updates_arg_specs :: "arg_spec list" where
  \<open>read_updates_arg_specs =
     [const_arg ''src'' 0 ''any''
        (''The update stream to read: a path (local, a glob, `s3://bucket/key`, or ''
         @ ''`https://host/file`), several such paths in a list, or inline MRT bytes. ''
         @ ''gzip/bzip2 archives are decompressed automatically.'')]
     @ common_arg_specs\<close>

definition peers_arg_specs :: "arg_spec list" where
  \<open>peers_arg_specs =
     [const_arg ''src'' 0 ''any''
        (''The MRT file to inspect: a path (local, a glob, `s3://bucket/key`, or ''
         @ ''`https://host/file`), several such paths in a list, or inline MRT bytes. ''
         @ ''gzip/bzip2 archives are decompressed automatically.'')]
     @ cloud_arg_specs\<close>

definition read_rib_secret_lookups :: "'s world \<Rightarrow> arguments \<Rightarrow> secret_request list" where
  "read_rib_secret_lookups w args = secret_lookups w (source_paths args 0)"

definition read_updates_secret_lookups :: "'s world \<Rightarrow> arguments \<Rightarrow> secret_request list" where
  "read_updates_secret_lookups w args = secret_lookups w (source_paths args 0)"

definition peers_secret_lookups :: "'s world \<Rightarrow> arguments \<Rightarrow> secret_request list" where
  "peers_secret_lookups w args = secret_lookups w (source_paths args 0)"

text \<open>\<open>for p in paths { if !is_remote(&p) { resolve_local(&p)?; } }\<close>\<close>

fun check_local_paths :: "'s world \<Rightarrow> string list \<Rightarrow> unit rpc_result" where
  "check_local_paths w [] = Inr ()"
| "check_local_paths w (p # ps) =
     (if is_remote p then check_local_paths w ps
      else try_then (resolve_local w p) (\<lambda>_. check_local_paths w ps))"

definition reader_on_bind :: "'s world \<Rightarrow> schema \<Rightarrow> arguments \<Rightarrow> bind_response rpc_result" where
  "reader_on_bind w sch args =
     try_then (check_local_paths w (source_paths args 0))
       (\<lambda>_. Inr \<lparr>output_schema = sch, opaque_data = []\<rparr>)"

definition read_rib_on_bind :: "'s world \<Rightarrow> arguments \<Rightarrow> bind_response rpc_result" where
  "read_rib_on_bind w args = reader_on_bind w rib_schema args"

definition read_updates_on_bind :: "'s world \<Rightarrow> arguments \<Rightarrow> bind_response rpc_result" where
  "read_updates_on_bind w args = reader_on_bind w updates_schema args"

definition peers_on_bind :: "arguments \<Rightarrow> bind_response rpc_result" where
  "peers_on_bind args = Inr \<lparr>output_schema = peers_schema, opaque_data = []\<rparr>"

definition reader_producer ::
  "('s, 'x, 'e) rt \<Rightarrow> kind \<Rightarrow> arguments \<Rightarrow> secrets \<Rightarrow> schema \<Rightarrow> ('s, 'e) producer rpc_result" where
  "reader_producer rt k args sec out_schema =
     try_then (source args 0) (\<lambda>src.
       try_then (resolve_sources (rt_world rt) src sec (cloud_overrides args)) (\<lambda>srcs.
         Inr (producer_new (rt_kit rt) out_schema k (strict_option args) srcs)))"

definition read_rib_producer ::
  "('s, 'x, 'e) rt \<Rightarrow> arguments \<Rightarrow> secrets \<Rightarrow> schema \<Rightarrow> ('s, 'e) producer rpc_result" where
  "read_rib_producer rt args sec out_schema = reader_producer rt Rib args sec out_schema"

definition read_updates_producer ::
  "('s, 'x, 'e) rt \<Rightarrow> arguments \<Rightarrow> secrets \<Rightarrow> schema \<Rightarrow> ('s, 'e) producer rpc_result" where
  "read_updates_producer rt args sec out_schema = reader_producer rt Updates args sec out_schema"

subsection \<open>The peer enumeration\<close>

record 's peers_producer =
  pp_schema :: schema
  pp_sources :: "'s byte_source list option"

definition make_peers_producer ::
  "'s world \<Rightarrow> arguments \<Rightarrow> secrets \<Rightarrow> schema \<Rightarrow> 's peers_producer rpc_result" where
  "make_peers_producer w args sec out_schema =
     try_then (source args 0) (\<lambda>src.
       try_then (resolve_sources w src sec (cloud_overrides args)) (\<lambda>srcs.
         Inr \<lparr>pp_schema = out_schema, pp_sources = Some srcs\<rparr>))"

type_synonym peer_key = "ip_addr \<times> u32"

definition peer_key :: "peer_row \<Rightarrow> peer_key" where
  "peer_key p = (p_peer_ip p, p_peer_asn p)"

fun add_peers :: "peer_key set \<Rightarrow> peer_row list \<Rightarrow> peer_row list \<Rightarrow> peer_key set \<times> peer_row list" where
  "add_peers seen rows [] = (seen, rows)"
| "add_peers seen rows (p # ps) =
     (if peer_key p \<notin> seen then add_peers (insert (peer_key p) seen) (rows @ [p]) ps
      else add_peers seen rows ps)"

type_synonym peer_stream = "dyn_reader buf_reader"

abbreviation peer_read :: "peer_stream read_fn" where
  "peer_read \<equiv> buf_read dyn_read"

partial_function (option) peers_loop ::
  "('x, 'e) bgpkit \<Rightarrow> peer_stream \<Rightarrow> 'e decoder \<Rightarrow> peer_key set \<Rightarrow> peer_row list
   \<Rightarrow> (peer_key set \<times> peer_row list) option" where
  "peers_loop kit r d seen rows =
     (case next_record kit peer_read r of
        (Inr (Some rec), r') \<Rightarrow>
          (case peer_rows d rec of
             (ps, d') \<Rightarrow>
               (case add_peers seen rows ps of
                  (seen', rows') \<Rightarrow> peers_loop kit r' d' seen' rows'))
      | _ \<Rightarrow> Some (seen, rows))"

definition open_peers :: "'s world \<Rightarrow> 's byte_source \<Rightarrow> peer_stream rpc_result" where
  "open_peers w src =
     try_then (open_source w src) (\<lambda>raw.
       try_then (map_err (\<lambda>e. ValueError (io_msg e)) (decompress_reader (gz_decoder w) (bz_decoder w) raw))
         (\<lambda>plain. Inr (buf_new plain)))"

fun peers_sources ::
  "('s, 'x, 'e) rt \<Rightarrow> 's byte_source list \<Rightarrow> peer_key set \<Rightarrow> peer_row list
   \<Rightarrow> peer_row list rpc_result option" where
  "peers_sources rt [] seen rows = Some (Inr rows)"
| "peers_sources rt (s # ss) seen rows =
     (case open_peers (rt_world rt) s of
        Inl e \<Rightarrow> Some (Inl e)
      | Inr r \<Rightarrow>
          (case peers_loop (rt_kit rt) r (decoder_new (rt_kit rt)) seen rows of
             None \<Rightarrow> None
           | Some (seen', rows') \<Rightarrow> peers_sources rt ss seen' rows'))"

definition peers_batch ::
  "('s, 'x, 'e) rt \<Rightarrow> schema \<Rightarrow> peer_row list rpc_result \<Rightarrow> record_batch option rpc_result" where
  "peers_batch rt sch out =
     try_then out (\<lambda>rows.
       try_then (map_err RuntimeError (rt_try_new rt sch (peers_columns rows))) (\<lambda>b. Inr (Some b)))"

definition peers_next_batch ::
  "('s, 'x, 'e) rt \<Rightarrow> 's peers_producer \<Rightarrow> (record_batch option rpc_result \<times> 's peers_producer) option" where
  "peers_next_batch rt p =
     (case pp_sources p of
        None \<Rightarrow> Some (Inr None, p)
      | Some srcs \<Rightarrow>
          (case peers_sources rt srcs {} [] of
             None \<Rightarrow> None
           | Some out \<Rightarrow> Some (peers_batch rt (pp_schema p) out, p\<lparr>pp_sources := None\<rparr>)))"

subsection \<open>What the enumeration lists\<close>

text \<open>The records of a source up to its end or its first error, and the peers they name.\<close>

inductive leading_records :: "('x, 'e) bgpkit \<Rightarrow> peer_stream \<Rightarrow> 'x mrt_record list \<Rightarrow> bool"
  for kit :: "('x, 'e) bgpkit" where
  lead_stop: "next_record kit peer_read r = (res, r') \<Longrightarrow> (\<nexists>rec. res = Inr (Some rec)) \<Longrightarrow>
    leading_records kit r []"
| lead_record: "next_record kit peer_read r = (Inr (Some rec), r') \<Longrightarrow> leading_records kit r' recs \<Longrightarrow>
    leading_records kit r (rec # recs)"

fun named_peers :: "'e decoder \<Rightarrow> 'x mrt_record list \<Rightarrow> peer_row list" where
  "named_peers d [] = []"
| "named_peers d (rec # recs) = fst (peer_rows d rec) @ named_peers (snd (peer_rows d rec)) recs"

inductive listed_peers :: "('s, 'x, 'e) rt \<Rightarrow> 's byte_source list \<Rightarrow> peer_row list rpc_result \<Rightarrow> bool"
  for rt :: "('s, 'x, 'e) rt" where
  listed_nil: "listed_peers rt [] (Inr [])"
| listed_error: "open_peers (rt_world rt) s = Inl e \<Longrightarrow> listed_peers rt (s # ss) (Inl e)"
| listed_source: "open_peers (rt_world rt) s = Inr r \<Longrightarrow> leading_records (rt_kit rt) r recs \<Longrightarrow>
    listed_peers rt ss out \<Longrightarrow>
    listed_peers rt (s # ss)
      (try_then out (\<lambda>ps. Inr (named_peers (decoder_new (rt_kit rt)) recs @ ps)))"

text \<open>The first row of each key, in order.\<close>

fun first_by_key :: "peer_key set \<Rightarrow> peer_row list \<Rightarrow> peer_row list" where
  "first_by_key seen [] = []"
| "first_by_key seen (p # ps) =
     (if peer_key p \<in> seen then first_by_key seen ps
      else p # first_by_key (insert (peer_key p) seen) ps)"

lemma add_peers_first:
  "add_peers seen rows ps = (seen \<union> peer_key ` set ps, rows @ first_by_key seen ps)"
  by (induction ps arbitrary: seen rows) (auto simp: insert_absorb)

lemma first_by_key_append:
  "first_by_key seen (ps @ qs) = first_by_key seen ps @ first_by_key (seen \<union> peer_key ` set ps) qs"
  by (induction ps arbitrary: seen) (auto simp: insert_absorb)

lemma first_by_key_keys:
  "distinct (map peer_key (first_by_key seen ps))"
  "peer_key ` set (first_by_key seen ps) = peer_key ` set ps - seen"
  "set (first_by_key seen ps) \<subseteq> set ps"
proof (induction ps arbitrary: seen)
  case (Cons p ps)
  { case 1 show ?case using Cons by (auto simp: image_iff) }
  { case 2 show ?case using Cons(2) by auto }
  { case 3 show ?case
      using Cons(3) [of seen] Cons(3) [of "insert (peer_key p) seen"] by auto }
qed simp_all

lemma first_by_key_triples:
  "set (first_by_key {} ps) = set ps \<longleftrightarrow> inj_on peer_key (set ps)"
proof
  assume "set (first_by_key {} ps) = set ps"
  with first_by_key_keys(1) [of "{}" ps] show "inj_on peer_key (set ps)" by (simp add: distinct_map)
next
  assume inj: "inj_on peer_key (set ps)"
  have "p \<in> set (first_by_key {} ps)" if "p \<in> set ps" for p
  proof -
    have "peer_key p \<in> peer_key ` set (first_by_key {} ps)"
      using that first_by_key_keys(2) [of "{}" ps] by simp
    then obtain q where "q \<in> set (first_by_key {} ps)" "peer_key p = peer_key q" by blast
    with first_by_key_keys(3) [of "{}" ps] that inj show ?thesis by (auto dest: inj_onD)
  qed
  with first_by_key_keys(3) [of "{}" ps] show "set (first_by_key {} ps) = set ps" by blast
qed

lemma peers_loop_unfold:
  "peers_loop kit r d seen rows =
     (case next_record kit peer_read r of
        (Inr (Some rec), r') \<Rightarrow>
          (case peer_rows d rec of
             (ps, d') \<Rightarrow>
               (case add_peers seen rows ps of
                  (seen', rows') \<Rightarrow> peers_loop kit r' d' seen' rows'))
      | _ \<Rightarrow> Some (seen, rows))"
  by (subst peers_loop.simps) (rule refl)

lemma peers_loop_lists:
  "leading_records kit r recs \<Longrightarrow>
   peers_loop kit r d seen rows =
     Some (seen \<union> peer_key ` set (named_peers d recs), rows @ first_by_key seen (named_peers d recs))"
proof (induction arbitrary: d seen rows rule: leading_records.induct)
  case (lead_stop r res r')
  then show ?case
    by (subst peers_loop_unfold) (auto split: sum.split option.split)
next
  case (lead_record r rec r' recs)
  show ?case
    by (subst peers_loop_unfold)
      (simp add: lead_record split_beta add_peers_first first_by_key_append Un_assoc image_Un)
qed

lemma leading_records_total:
  assumes "parser_progress kit"
  shows "\<exists>recs. leading_records kit r recs"
proof (induction "length (buffered_bytes dyn_bytes r)" arbitrary: r rule: less_induct)
  case less
  obtain res r' where nr: "next_record kit peer_read r = (res, r')" by fastforce
  show ?case
  proof (cases "\<exists>rec. res = Inr (Some rec)")
    case True
    then obtain rec where rec: "res = Inr (Some rec)" by blast
    with nr have run: "run peer_read (parse_mrt_record kit) r = (Inr rec, r')"
      by (simp add: next_record_cases)
    have "length (buffered_bytes dyn_bytes r') < length (buffered_bytes dyn_bytes r)"
      using buffered_dyn.run_progress [OF run] assms by (auto simp: parser_progress_def)
    from less [OF this] nr rec show ?thesis by (blast intro: lead_record)
  next
    case False
    with nr show ?thesis by (blast intro: lead_stop)
  qed
qed

lemma peers_sources_lists:
  "listed_peers rt ss out \<Longrightarrow>
   peers_sources rt ss seen rows = Some (map_sum id (\<lambda>ps. rows @ first_by_key seen ps) out)"
proof (induction arbitrary: seen rows rule: listed_peers.induct)
  case (listed_source s r recs ss out)
  then show ?case
    by (cases out) (simp_all add: peers_loop_lists first_by_key_append)
qed simp_all

lemma listed_peers_total:
  assumes "parser_progress (rt_kit rt)"
  shows "\<exists>out. listed_peers rt ss out"
proof (induction ss)
  case Nil
  show ?case by (blast intro: listed_nil)
next
  case (Cons s ss)
  then obtain out where "listed_peers rt ss out" by blast
  with leading_records_total [OF assms] show ?case
    by (cases "open_peers (rt_world rt) s") (blast intro: listed_error listed_source)+
qed

lemma check_local_paths_first:
  "case check_local_paths w ps of
      Inr _ \<Rightarrow> list_all (\<lambda>p. is_remote p \<or> (\<exists>qs. resolve_local w p = Inr qs)) ps
    | Inl e \<Rightarrow> \<exists>ok p later. ps = ok @ p # later
        \<and> list_all (\<lambda>p. is_remote p \<or> (\<exists>qs. resolve_local w p = Inr qs)) ok
        \<and> \<not> is_remote p \<and> resolve_local w p = Inl e"
proof (induction ps)
  case (Cons p ps)
  show ?case
  proof (cases "is_remote p \<or> (\<exists>qs. resolve_local w p = Inr qs)")
    case True
    then have same: "check_local_paths w (p # ps) = check_local_paths w ps" by auto
    show ?thesis
    proof (cases "check_local_paths w ps")
      case (Inl e)
      with Cons obtain ok q later where "ps = ok @ q # later"
        "list_all (\<lambda>p. is_remote p \<or> (\<exists>qs. resolve_local w p = Inr qs)) ok"
        "\<not> is_remote q" "resolve_local w q = Inl e" by auto
      with True have "p # ps = (p # ok) @ q # later \<and> list_all (\<lambda>p. is_remote p \<or> (\<exists>qs. resolve_local w p = Inr qs)) (p # ok)
          \<and> \<not> is_remote q \<and> resolve_local w q = Inl e" by simp
      then show ?thesis unfolding same Inl sum.case by blast
    qed (use Cons True same in simp)
  next
    case False
    then obtain e where "\<not> is_remote p" "resolve_local w p = Inl e" by (cases "resolve_local w p") auto
    then have "p # ps = [] @ p # ps \<and> list_all (\<lambda>p. is_remote p \<or> (\<exists>qs. resolve_local w p = Inr qs)) []
        \<and> \<not> is_remote p \<and> resolve_local w p = Inl e" "check_local_paths w (p # ps) = Inl e" by simp_all
    then show ?thesis unfolding sum.case by force
  qed
qed simp

subsection \<open>Properties\<close>

text \<open>
  C6: what \<open>peers\<close> lists, and where that is not what its documentation promises. When the parser consumes
  input, the first call gives one batch, the second the end, and an error is that of opening a source. The
  rows of the batch are the peers named by the leading records of every source, in order, keeping of
  each (address, ASN) pair the first row only: no pair appears twice and none of those records' pairs is
  missing. The documentation promises more on both counts. It promises the distinct (address, ASN,
  collector) triples; the batch has all of them exactly when no (address, ASN) pair is named with two
  collectors, and otherwise the rows of the later collectors are dropped. And it says that a source is
  listed to its clean end or a torn tail; but any error ends it, one that \<open>read_rib\<close> and \<open>read_updates\<close> go on
  behind included, so a source whose first record is corrupt lists nothing.
\<close>

theorem peers_lists_once:
  assumes "parser_progress (rt_kit rt)" and "try_new_accepts (rt_try_new rt)"
  shows "\<exists>out. listed_peers rt srcs out
    \<and> (case out of
         Inl e \<Rightarrow> peers_next_batch rt \<lparr>pp_schema = peers_schema, pp_sources = Some srcs\<rparr>
           = Some (Inl e, \<lparr>pp_schema = peers_schema, pp_sources = None\<rparr>)
       | Inr ps \<Rightarrow> peers_next_batch rt \<lparr>pp_schema = peers_schema, pp_sources = Some srcs\<rparr>
           = Some (Inr (Some \<lparr>rb_schema = peers_schema, rb_columns = peers_columns (first_by_key {} ps)\<rparr>),
                   \<lparr>pp_schema = peers_schema, pp_sources = None\<rparr>)
         \<and> distinct (map peer_key (first_by_key {} ps))
         \<and> peer_key ` set (first_by_key {} ps) = peer_key ` set ps
         \<and> (set (first_by_key {} ps) = set ps \<longleftrightarrow> inj_on peer_key (set ps)))
    \<and> (\<forall>s r err r'. srcs = [s] \<longrightarrow> open_peers (rt_world rt) s = Inr r \<longrightarrow>
         next_record (rt_kit rt) peer_read r = (Inl err, r') \<longrightarrow>
         peers_next_batch rt \<lparr>pp_schema = peers_schema, pp_sources = Some srcs\<rparr>
           = Some (Inr (Some \<lparr>rb_schema = peers_schema, rb_columns = peers_columns []\<rparr>),
                   \<lparr>pp_schema = peers_schema, pp_sources = None\<rparr>))
    \<and> peers_next_batch rt \<lparr>pp_schema = peers_schema, pp_sources = None\<rparr>
        = Some (Inr None, \<lparr>pp_schema = peers_schema, pp_sources = None\<rparr>)"
proof -
  note batch = peers_next_batch_def peers_batch_def
  obtain out where out: "listed_peers rt srcs out" using listed_peers_total [OF assms(1)] by blast
  from try_new_tables(3) [OF assms(2)] peers_sources_lists [OF out, of "{}" "[]"] have
    "case out of
         Inl e \<Rightarrow> peers_next_batch rt \<lparr>pp_schema = peers_schema, pp_sources = Some srcs\<rparr>
           = Some (Inl e, \<lparr>pp_schema = peers_schema, pp_sources = None\<rparr>)
       | Inr ps \<Rightarrow> peers_next_batch rt \<lparr>pp_schema = peers_schema, pp_sources = Some srcs\<rparr>
           = Some (Inr (Some \<lparr>rb_schema = peers_schema, rb_columns = peers_columns (first_by_key {} ps)\<rparr>),
                   \<lparr>pp_schema = peers_schema, pp_sources = None\<rparr>)"
    by (cases out) (simp_all add: batch)
  moreover have "peers_next_batch rt \<lparr>pp_schema = peers_schema, pp_sources = Some [s]\<rparr>
      = Some (Inr (Some \<lparr>rb_schema = peers_schema, rb_columns = peers_columns []\<rparr>),
              \<lparr>pp_schema = peers_schema, pp_sources = None\<rparr>)"
    if "open_peers (rt_world rt) s = Inr r" "next_record (rt_kit rt) peer_read r = (Inl err, r')" for s r err r'
    using that try_new_tables(3) [OF assms(2), of "[]"]
    by (simp add: batch peers_loop_unfold [of "rt_kit rt" r])
  moreover have "peers_next_batch rt \<lparr>pp_schema = peers_schema, pp_sources = None\<rparr>
      = Some (Inr None, \<lparr>pp_schema = peers_schema, pp_sources = None\<rparr>)"
    by (simp add: peers_next_batch_def)
  ultimately show ?thesis using out
    by (intro exI [of _ out]) (auto simp: first_by_key_keys first_by_key_triples split: sum.splits)
qed

theorem peers_lists_once_witness:
  "peers_next_batch toy_rt \<lparr>pp_schema = peers_schema, pp_sources = Some [BytesSource [0xFE, 1]]\<rparr>
    = Some (Inr (Some \<lparr>rb_schema = peers_schema, rb_columns = peers_columns []\<rparr>),
            \<lparr>pp_schema = peers_schema, pp_sources = None\<rparr>)"
proof -
  have "open_peers (rt_world toy_rt) (BytesSource [0xFE, 1])
      = Inr \<lparr>br_buf = [], br_inner = PlainReader \<lparr>br_buf = [0xFE, 1], br_inner = []\<rparr>\<rparr>"
    by (simp add: open_peers_def cursor_def decompress_reader_def fill_buf_def buf_new_def starts_with_def
        gzip_magic_def bzip2_magic_def buf_capacity_def)
  moreover have "\<exists>r'. next_record toy_kit peer_read \<lparr>br_buf = [], br_inner = PlainReader \<lparr>br_buf = [0xFE, 1], br_inner = []\<rparr>\<rparr>
      = (Inl (OtherError ''corrupt''), r')"
    by (simp add: next_record_def toy_kit_def toy_parse_def buf_read_def fill_buf_def buf_capacity_def
        toy_parse_byte_def)
  ultimately show ?thesis
    using peers_lists_once [of toy_rt "[BytesSource [0xFE, 1]]"] by (auto simp: toy_progress arrow_try_new_accepts)
qed

text \<open>
  C35: binding checks the local paths: \<open>on_bind\<close> of the two readers succeeds exactly when every path
  without a remote scheme resolves to local files, and then declares the function's schema and hands
  back no data; otherwise it reports the error of the first path that does not resolve, whatever
  errors the paths behind it have.
\<close>

theorem bind_checks_paths:
  "(case read_rib_on_bind w args of
      Inr b \<Rightarrow> b = \<lparr>output_schema = rib_schema, opaque_data = []\<rparr>
        \<and> list_all (\<lambda>p. is_remote p \<or> (\<exists>ps. resolve_local w p = Inr ps)) (source_paths args 0)
    | Inl e \<Rightarrow> \<exists>ok p later. source_paths args 0 = ok @ p # later
        \<and> list_all (\<lambda>p. is_remote p \<or> (\<exists>ps. resolve_local w p = Inr ps)) ok
        \<and> \<not> is_remote p \<and> resolve_local w p = Inl e)
   \<and> (case read_updates_on_bind w args of
      Inr b \<Rightarrow> b = \<lparr>output_schema = updates_schema, opaque_data = []\<rparr>
        \<and> list_all (\<lambda>p. is_remote p \<or> (\<exists>ps. resolve_local w p = Inr ps)) (source_paths args 0)
    | Inl e \<Rightarrow> \<exists>ok p later. source_paths args 0 = ok @ p # later
        \<and> list_all (\<lambda>p. is_remote p \<or> (\<exists>ps. resolve_local w p = Inr ps)) ok
        \<and> \<not> is_remote p \<and> resolve_local w p = Inl e)"
  using check_local_paths_first [where w = w and ps = "source_paths args 0"]
  by (cases "check_local_paths w (source_paths args 0)")
    (simp_all add: read_rib_on_bind_def read_updates_on_bind_def reader_on_bind_def)

definition path_args :: "string \<Rightarrow> arguments" where
  "path_args p = \<lparr>const_str = (\<lambda>i. if i = 0 then Some p else None), arg_at = (\<lambda>_. None),
     named_bool = (\<lambda>_. None), named_str = (\<lambda>_. None)\<rparr>"

text \<open>
  The error of an unsupported scheme never reaches the caller: binding a reader to a literal path of
  an unsupported scheme such as \<open>gs://\<close> reports "File not found", although \<open>classify\<close>, which the
  producer would call, holds the error the module promises for it.
\<close>

theorem unsupported_scheme_masked:
  assumes "\<not> file_exists w ''gs://bucket/x.mrt''"
  shows "read_rib_on_bind w (path_args ''gs://bucket/x.mrt'')
      = Inl (ValueError ''File not found: gs://bucket/x.mrt'')
    \<and> classify w ''gs://bucket/x.mrt'' = Inl (unsupported_scheme ''gs'' ''gs://bucket/x.mrt'')"
proof -
  have "\<not> is_remote ''gs://bucket/x.mrt''" by code_simp
  moreover have "\<not> contains_any glob_chars ''gs://bucket/x.mrt''" by code_simp
  moreover have "source_paths (path_args ''gs://bucket/x.mrt'') 0 = [''gs://bucket/x.mrt'']"
    by (simp add: source_paths_def source_def path_args_def)
  moreover have "split_once ''://'' ''gs://bucket/x.mrt'' = Some (''gs'', ''bucket/x.mrt'')"
    by code_simp
  moreover have "ascii_lower ''gs'' = ''gs''" "scheme_like ''gs''" by code_simp+
  ultimately show ?thesis
    using assms by (simp add: read_rib_on_bind_def reader_on_bind_def resolve_local_literal file_not_found_def
        classify_def)
qed

theorem unsupported_scheme_masked_witness:
  "read_rib_on_bind (sample_world\<lparr>file_exists := (\<lambda>_. False)\<rparr>) (path_args ''gs://bucket/x.mrt'')
     = Inl (ValueError ''File not found: gs://bucket/x.mrt'')"
  by (rule unsupported_scheme_masked [THEN conjunct1]) simp

text \<open>
  A batch is the rows it was built from: with the schema its function declares and a batch
  constructor that accepts what Arrow documents, \<open>pull_batch\<close> never fails in building a batch: it
  gives the end exactly when no rows are left, and otherwise the record batch of the rows, one array
  cell per row in every column.
\<close>

theorem batch_matches_rows:
  assumes "try_new_accepts (rt_try_new rt)" and "parser_progress (rt_kit rt)" and "producer_ok p"
    and "schema p = (case kind p of Rib \<Rightarrow> rib_schema | Updates \<Rightarrow> updates_schema)"
    and "pull_rows rt (batch_rows (rt_world rt)) p = Some (Inr rows, p')"
  shows "pull_batch rt p =
      Some (Inr (if rows = [] then None else Some \<lparr>rb_schema = schema p,
        rb_columns = (case kind p of Rib \<Rightarrow> rib_columns rows | Updates \<Rightarrow> updates_columns rows)\<rparr>), p')
    \<and> list_all (\<lambda>c. array_len c = length rows)
        (case kind p of Rib \<Rightarrow> rib_columns rows | Updates \<Rightarrow> updates_columns rows)"
proof -
  obtain cs e where run: "state_run rt p cs e"
    using state_run_total [OF assms(2), of p] assms(3) by (auto simp: producer_ok_def)
  have pos: "0 < batch_rows (rt_world rt)"
    by (rule batch_rows_positive)
  from pull_rows_delivers [OF assms(2,3) run pos] assms(5)
  have "same_scan p p'" by simp
  then have "schema p' = schema p" "kind p' = kind p" by (simp_all add: same_scan_def)
  with assms(4,5) try_new_tables(1,2) [OF assms(1)] array_len_tables [of rows] show ?thesis
    by (auto simp: pull_batch_def finish_batch_def build_batch_def split: kind.splits)
qed

theorem batch_matches_rows_witness:
  "list_all (\<lambda>c. array_len c = 0) (rib_columns [])"
proof -
  let ?p = "toy_at [] 0 None 0 None True"
  have "pull_rows toy_rt (batch_rows sample_world) ?p = Some (Inr [], ?p)" by (rule toy_pull)
  with batch_matches_rows [of toy_rt ?p "[]" ?p] show ?thesis
    by (simp add: arrow_try_new_accepts toy_progress producer_ok_def toy_at_def)
qed

end
