(* ===== verification/Table_Metadata.thy ===== *)
theory Table_Metadata
  imports Table_Functions Meta
begin

text \<open>
  The descriptive metadata of the three table functions (\<open>metadata\<close> in \<open>table/read_rib.rs\<close>,
  \<open>read_updates.rs\<close>, \<open>peers.rs\<close>), the SDK trait \<open>TableFunction\<close> as a record of the methods a function
  provides besides its producer, and the registry of \<open>table/mod.rs\<close>. The property ties the documented
  result columns to the schema the scan really has.
\<close>

record 's table_function =
  tf_name :: string
  tf_metadata :: function_metadata
  tf_argument_specs :: "arg_spec list"
  tf_secret_lookups :: "'s world \<Rightarrow> arguments \<Rightarrow> secret_request list"
  tf_on_bind :: "'s world \<Rightarrow> arguments \<Rightarrow> bind_response rpc_result"

subsection \<open>\<open>read_rib\<close>\<close>

definition read_rib_result_columns :: "(string \<times> string \<times> string) list" where
  \<open>read_rib_result_columns =
     [(''timestamp'',
       ''TIMESTAMP'',
       ''Route timestamp from the MRT record header '' @ em_dash @ '' when this RIB entry was captured.''),
      (''view_name'',
       ''VARCHAR'',
       ''The RIB view / collector name from the TABLE_DUMP_V2 PEER_INDEX_TABLE.''),
      (''peer_ip'',
       INET_STRUCT_TYPE,
       ''The reporting peer\'s IP address in DuckDB\'s INET physical layout; cast `::INET`.''),
      (''peer_asn'',
       ''UINTEGER'',
       ''The reporting peer\'s autonomous-system number.''),
      (''prefix'',
       INET_STRUCT_TYPE,
       ''The announced prefix in DuckDB\'s INET physical layout; cast `::INET` for containment tests (`<<=` / `>>=`).''),
      (''as_path'',
       ''UINTEGER[]'',
       ''The AS path in path order '' @ em_dash @ '' the origin AS that announced the prefix is last.''),
      (''origin_asn'',
       ''UINTEGER'',
       ''The origin AS (last ASN in as_path) that announced the prefix.''),
      (''next_hop'',
       INET_STRUCT_TYPE,
       ''The BGP next-hop address in DuckDB\'s INET physical layout; cast `::INET`.''),
      (''communities'',
       ''VARCHAR[]'',
       ''BGP communities as strings '' @ em_dash @ '' standard `asn:value` and RFC 8092 large `global:data1:data2`.''),
      (''med'',
       ''UINTEGER'',
       ''The MULTI_EXIT_DISC (MED) attribute, or NULL when the route carries none.''),
      (''local_pref'',
       ''UINTEGER'',
       ''The LOCAL_PREF attribute, or NULL when the route carries none.''),
      (''atomic_aggregate'',
       ''BOOLEAN'',
       ''Whether the ATOMIC_AGGREGATE attribute is set on the route.''),
      (''aggregator_asn'',
       ''UINTEGER'',
       ''The AS that formed an aggregate route (AGGREGATOR attribute), or NULL.''),
      (''error'',
       ''VARCHAR'',
       ''Decode error for a malformed record (all other columns NULL); NULL on a clean row. A malformed record instead aborts the scan when `strict => true`.'')]\<close>

definition read_rib_metadata :: function_metadata where
  \<open>read_rib_metadata =
     \<lparr>md_description = ''Read an MRT TABLE_DUMP_V2 RIB snapshot into rows'',
      md_return_type = None,
      md_examples =
        [\<lparr>ex_sql = ''SELECT prefix, origin_asn, as_path FROM bgp.main.read_rib(from_hex('' @ [CHR 0x27] @ RIB_MRT_HEX @ ''\'));'',
          ex_description = ''Scan an inline TABLE_DUMP_V2 RIB snapshot (3 entries) into rows.'',
          ex_expected_output = None\<rparr>],
      md_tags =
        object_tags
          (''Read MRT RIB Snapshot'')
          (''Scan an MRT TABLE_DUMP_V2 RIB snapshot (a RouteViews / RIPE RIS `rib.*` archive) into ''
           @ ''one row per (prefix, peer) RIB entry. `src` is a path '' @ em_dash @ '' local, a glob, an `s3://` ''
           @ ''URL, or an `http(s)://` URL '' @ em_dash @ '' or an inline `BLOB` of MRT bytes; gzip (`.gz`) and bzip2 ''
           @ ''(`.bz2`) inputs are decompressed transparently. Each row carries the route timestamp, ''
           @ ''RIB view name, the reporting peer (peer_ip INET, peer_asn), the prefix (INET), the ''
           @ ''AS path (`LIST(UINTEGER)`), origin ASN, next hop (INET), communities ''
           @ ''(`LIST(VARCHAR)` '' @ em_dash @ '' standard and large), MED, local pref, atomic-aggregate flag, and ''
           @ ''aggregator ASN. ''
           @ ''prefix / peer_ip / next_hop are DuckDB INET values (cast with `::INET`), so prefix ''
           @ ''containment (`prefix::INET <<= \'203.0.113.0/24\'`) and joins against vgi-netflow / ''
           @ ''geoip work without parsing strings. A malformed record yields a row with NULL fields ''
           @ ''and a populated `error` column unless `strict => true`. This is the RIB counterpart ''
           @ ''of read_updates.'')
          (''Scan an MRT TABLE_DUMP_V2 RIB dump into rows: timestamp, view_name, peer_ip (INET), ''
           @ ''peer_asn, prefix (INET), as_path (`LIST(UINTEGER)`), origin_asn, next_hop (INET), ''
           @ ''communities (`LIST(VARCHAR)`), med, local_pref, atomic_aggregate, aggregator_asn, ''
           @ ''and an `error` capture column. `src` is a path / glob / `s3://` / `http(s)://` URL or ''
           @ ''a `BLOB`; `.gz`/`.bz2` auto-decompress. Cast INET columns with `::INET` for ''
           @ ''containment.'')
          (''read rib, MRT, TABLE_DUMP_V2, RouteViews, RIPE RIS, routing table, BGP RIB, prefix, ''
           @ ''AS path, origin ASN, next hop, communities, INET, route leak, hijack, table function'')
          (''MRT readers'')
        @ [(''vgi.result_columns_schema'', result_columns_schema_json read_rib_result_columns),
           (''vgi.example_queries'', example_queries_json
             [(''Scan an inline TABLE_DUMP_V2 RIB snapshot (3 entries) into rows.'',
               ''SELECT prefix, origin_asn, as_path FROM bgp.main.read_rib(from_hex('' @ [CHR 0x27] @ RIB_MRT_HEX @ ''\'));'')])]\<rparr>\<close>

definition read_rib_function :: "'s table_function" where
  "read_rib_function =
     \<lparr>tf_name = ''read_rib'', tf_metadata = read_rib_metadata, tf_argument_specs = read_rib_arg_specs,
      tf_secret_lookups = read_rib_secret_lookups, tf_on_bind = read_rib_on_bind\<rparr>"

subsection \<open>\<open>read_updates\<close>\<close>

definition read_updates_result_columns :: "(string \<times> string \<times> string) list" where
  \<open>read_updates_result_columns =
     [(''timestamp'',
       ''TIMESTAMP'',
       ''Message timestamp from the MRT record header.''),
      (''peer_ip'',
       INET_STRUCT_TYPE,
       ''The reporting peer\'s IP address in DuckDB\'s INET physical layout; cast `::INET`.''),
      (''peer_asn'',
       ''UINTEGER'',
       ''The reporting peer\'s autonomous-system number.''),
      (''message_type'',
       ''VARCHAR'',
       ''The message kind: \'announce\', \'withdraw\', or \'state_change\'.''),
      (''prefix'',
       INET_STRUCT_TYPE,
       ''The announced or withdrawn prefix in DuckDB\'s INET physical layout; cast `::INET`. NULL for a state_change message.''),
      (''as_path'',
       ''UINTEGER[]'',
       ''The AS path (origin AS last) for an announcement; NULL for a withdrawal or state change.''),
      (''origin_asn'',
       ''UINTEGER'',
       ''The origin AS (last ASN in as_path) for an announcement; NULL otherwise.''),
      (''next_hop'',
       INET_STRUCT_TYPE,
       ''The BGP next-hop address for an announcement in DuckDB\'s INET physical layout; cast `::INET`.''),
      (''communities'',
       ''VARCHAR[]'',
       ''BGP communities as strings (standard `asn:value` and RFC 8092 large) for an announcement.''),
      (''old_state'',
       ''USMALLINT'',
       ''The prior BGP FSM state for a state_change message; NULL otherwise.''),
      (''new_state'',
       ''USMALLINT'',
       ''The new BGP FSM state for a state_change message; NULL otherwise.''),
      (''error'',
       ''VARCHAR'',
       ''Decode error for a malformed record (all other columns NULL); NULL on a clean row. A malformed record instead aborts the scan when `strict => true`.'')]\<close>

definition read_updates_metadata :: function_metadata where
  \<open>read_updates_metadata =
     \<lparr>md_description = ''Read an MRT BGP4MP update stream into rows'',
      md_return_type = None,
      md_examples =
        [\<lparr>ex_sql = ''SELECT message_type, count(*) FROM bgp.main.read_updates(from_hex('' @ [CHR 0x27] @ UPD_MRT_HEX @ ''\')) ''
            @ ''GROUP BY 1;'',
          ex_description = ''Count announce / withdraw / state-change messages in an inline ''
            @ ''BGP4MP update stream.'',
          ex_expected_output = None\<rparr>],
      md_tags =
        object_tags
          (''Read MRT BGP4MP Update Stream'')
          (''Scan an MRT BGP4MP update stream (a RouteViews / RIPE RIS `updates.*` archive) into ''
           @ ''one row per BGP message: a prefix announcement, a withdrawal, or an FSM state change. ''
           @ ''`src` is a path '' @ em_dash @ '' local, a glob, an `s3://` URL, or an `http(s)://` URL '' @ em_dash @ '' or an ''
           @ ''inline `BLOB` of MRT bytes; gzip (`.gz`) and bzip2 (`.bz2`) inputs are decompressed ''
           @ ''transparently. Each row carries the timestamp, the reporting peer (peer_ip INET, ''
           @ ''peer_asn), the message_type (\'announce\' / \'withdraw\' / \'state_change\'), the prefix ''
           @ ''(INET), AS path (`LIST(UINTEGER)`), origin ASN, next hop (INET), communities ''
           @ ''(`LIST(VARCHAR)`), and '' @ em_dash @ '' for state changes '' @ em_dash @ '' old_state and new_state. prefix / peer_ip ''
           @ ''/ next_hop are DuckDB INET values (cast with `::INET`) so containment and prefix ''
           @ ''joins work without parsing strings. Announcements and withdrawals stay in one stream ''
           @ ''so RIB churn can be reconstructed over time. A malformed record yields a row with ''
           @ ''NULL fields and a populated `error` column unless `strict => true`. This is the ''
           @ ''update-stream counterpart of read_rib.'')
          (''Scan an MRT BGP4MP update stream into rows: timestamp, peer_ip (INET), peer_asn, ''
           @ ''message_type (announce/withdraw/state_change), prefix (INET), as_path ''
           @ ''(`LIST(UINTEGER)`), origin_asn, next_hop (INET), communities (`LIST(VARCHAR)`), ''
           @ ''old_state, new_state, and an `error` capture column. `src` is a path / glob / ''
           @ ''`s3://` / `http(s)://` URL or a `BLOB`; `.gz`/`.bz2` auto-decompress. Cast INET ''
           @ ''columns with `::INET` for containment.'')
          (''read updates, MRT, BGP4MP, RouteViews, RIPE RIS, announcement, withdrawal, state ''
           @ ''change, prefix, AS path, communities, INET, RIB churn, route leak, table function'')
          (''MRT readers'')
        @ [(''vgi.result_columns_schema'', result_columns_schema_json read_updates_result_columns),
           (''vgi.example_queries'', example_queries_json
             [(''Count announce / withdraw / state-change messages in an inline BGP4MP update ''
               @ ''stream.'',
               ''SELECT message_type, count(*) FROM bgp.main.read_updates(from_hex('' @ [CHR 0x27] @ UPD_MRT_HEX @ ''\')) ''
               @ ''GROUP BY 1;'')])]\<rparr>\<close>

definition read_updates_function :: "'s table_function" where
  "read_updates_function =
     \<lparr>tf_name = ''read_updates'', tf_metadata = read_updates_metadata, tf_argument_specs = read_updates_arg_specs,
      tf_secret_lookups = read_updates_secret_lookups, tf_on_bind = read_updates_on_bind\<rparr>"

subsection \<open>\<open>peers\<close>\<close>

definition peers_result_columns :: "(string \<times> string \<times> string) list" where
  \<open>peers_result_columns =
     [(''peer_ip'',
       INET_STRUCT_TYPE,
       ''The peer\'s IP address in DuckDB\'s INET physical layout; cast `::INET`.''),
      (''peer_asn'',
       ''UINTEGER'',
       ''The peer\'s autonomous-system number.''),
      (''collector'',
       ''VARCHAR'',
       ''The RIB view name (TABLE_DUMP_V2 PEER_INDEX_TABLE); NULL for a BGP4MP update ''
       @ ''stream, which carries no collector name.'')]\<close>

definition peers_metadata :: function_metadata where
  \<open>peers_metadata =
     \<lparr>md_description = ''List the distinct peers / collectors in an MRT file'',
      md_return_type = None,
      md_examples =
        [\<lparr>ex_sql = ''SELECT peer_asn, collector FROM bgp.main.peers(from_hex('' @ [CHR 0x27] @ RIB_MRT_HEX @ ''\'));'',
          ex_description = ''List the peers in an inline TABLE_DUMP_V2 PEER_INDEX_TABLE.'',
          ex_expected_output = None\<rparr>],
      md_tags =
        object_tags
          (''List MRT Peers / Collectors'')
          (''List the distinct BGP peers in an MRT file: one row per (peer_ip, peer_asn, ''
           @ ''collector) triple. For a TABLE_DUMP_V2 RIB it returns every peer in the ''
           @ ''PEER_INDEX_TABLE, with the RIB view name as the `collector`; for a BGP4MP update ''
           @ ''stream it returns each distinct peer that produced a message, and `collector` is ''
           @ ''NULL (a raw update stream carries no collector name). Unlike read_rib / read_updates ''
           @ ''this function never emits an `error` column and takes no `strict` option '' @ em_dash @ '' a torn or ''
           @ ''truncated tail simply ends the enumeration. `src` is a path (local, glob, `s3://`, or ''
           @ ''`http(s)://`) or an inline `BLOB` of MRT bytes; `.gz`/`.bz2` auto-decompress. peer_ip ''
           @ ''is a DuckDB INET value (cast with `::INET`). Use it to enumerate vantage points ''
           @ ''before scanning a dump, or to join peer ASNs against attribution data.'')
          (''List the distinct peers in an MRT file: peer_ip (INET), peer_asn, and collector (the ''
           @ ''RIB view name for a TABLE_DUMP_V2 RIB, NULL for a BGP4MP update stream). `src` is a ''
           @ ''path / glob / `s3://` / `http(s)://` URL or a `BLOB`; `.gz`/`.bz2` auto-decompress.'')
          (''peers, collectors, vantage points, MRT, PEER_INDEX_TABLE, peer ASN, peer IP, ''
           @ ''RouteViews, RIPE RIS, table function'')
          (''MRT readers'')
        @ [(''vgi.result_columns_schema'', result_columns_schema_json peers_result_columns),
           (''vgi.example_queries'', example_queries_json
             [(''List the peers in an inline TABLE_DUMP_V2 PEER_INDEX_TABLE.'',
               ''SELECT peer_asn, collector FROM bgp.main.peers(from_hex('' @ [CHR 0x27] @ RIB_MRT_HEX @ ''\'));'')])]\<rparr>\<close>

definition peers_function :: "'s table_function" where
  "peers_function =
     \<lparr>tf_name = ''peers'', tf_metadata = peers_metadata, tf_argument_specs = peers_arg_specs,
      tf_secret_lookups = peers_secret_lookups, tf_on_bind = (\<lambda>w. peers_on_bind)\<rparr>"

subsection \<open>Registration\<close>

definition registered_tables :: "'s table_function list" where
  "registered_tables = [read_rib_function, read_updates_function, peers_function]"

subsection \<open>The documented columns\<close>

text \<open>The name DuckDB gives an Arrow column's type; a 16-byte opaque field is a \<open>HUGEINT\<close>.\<close>

fun duckdb_type :: "data_type \<Rightarrow> string" and duckdb_field :: "field \<Rightarrow> string" where
  "duckdb_type UInt8 = ''UTINYINT''"
| "duckdb_type UInt16 = ''USMALLINT''"
| "duckdb_type UInt32 = ''UINTEGER''"
| "duckdb_type UInt64 = ''UBIGINT''"
| "duckdb_type Int8 = ''TINYINT''"
| "duckdb_type Int16 = ''SMALLINT''"
| "duckdb_type Int32 = ''INTEGER''"
| "duckdb_type Int64 = ''BIGINT''"
| "duckdb_type Boolean = ''BOOLEAN''"
| "duckdb_type Utf8 = ''VARCHAR''"
| "duckdb_type LargeUtf8 = ''VARCHAR''"
| "duckdb_type Binary = ''BLOB''"
| "duckdb_type LargeBinary = ''BLOB''"
| "duckdb_type (FixedSizeBinary n) = ''BLOB''"
| "duckdb_type TimestampMicrosecond = ''TIMESTAMP''"
| "duckdb_type (DList f) = duckdb_field f @ ''[]''"
| "duckdb_type (DLargeList f) = duckdb_field f @ ''[]''"
| "duckdb_type (DStruct fs) =
     ''STRUCT('' @ join '', '' (map (\<lambda>f. field_name f @ '' '' @ duckdb_field f) fs) @ '')''"
| "duckdb_field (Field n t nu m) =
     (if t = FixedSizeBinary 16 \<and> m = hugeint_metadata then ''HUGEINT'' else duckdb_type t)"

definition column_documented :: "field \<Rightarrow> json \<Rightarrow> bool" where
  "column_documented f j \<longleftrightarrow>
     (\<exists>d. d \<noteq> [] \<and> j = JObj [(''name'', JStr (field_name f)), (''type'', JStr (duckdb_field f)),
                           (''description'', JStr d)])"

definition documents_schema :: "function_metadata \<Rightarrow> schema \<Rightarrow> bool" where
  "documents_schema md sch \<longleftrightarrow>
     (\<exists>items. Option.bind (map_of (md_tags md) ''vgi.result_columns_schema'') parse_json = Some (JArr items)
        \<and> list_all2 column_documented sch items)"

lemma columns_clean:
  "list_all (\<lambda>(n, t, d). clean False n \<and> clean False t \<and> clean False d) read_rib_result_columns"
  "list_all (\<lambda>(n, t, d). clean False n \<and> clean False t \<and> clean False d) read_updates_result_columns"
  "list_all (\<lambda>(n, t, d). clean False n \<and> clean False t \<and> clean False d) peers_result_columns"
  by code_simp+

lemma inet_duckdb: "duckdb_field (inet_field name) = INET_STRUCT_TYPE"
  by (simp add: inet_field_def inet_type_def inet_child_fields_def INET_STRUCT_TYPE_def hugeint_metadata_def)

lemma documents_schemaI:
  assumes "map_of (md_tags md) ''vgi.result_columns_schema'' = Some (result_columns_schema_json cols)"
    and "list_all (\<lambda>(n, t, d). clean False n \<and> clean False t \<and> clean False d) cols"
    and "list_all2 (\<lambda>f (n, t, d). field_name f = n \<and> duckdb_field f = t \<and> d \<noteq> []) sch cols"
  shows "documents_schema md sch"
proof -
  have "parse_json (result_columns_schema_json cols) = Some (JArr (map (\<lambda>(n, t, d).
     JObj [(''name'', JStr n), (''type'', JStr t), (''description'', JStr d)]) cols))"
    unfolding builders_render parse_render clean_builders using assms(2) by simp
  moreover have "list_all2 column_documented sch (map (\<lambda>(n, t, d).
     JObj [(''name'', JStr n), (''type'', JStr t), (''description'', JStr d)]) cols)"
    unfolding list_all2_map2 by (rule list_all2_mono [OF assms(3)]) (auto simp: column_documented_def)
  ultimately show ?thesis using assms(1) by (auto simp: documents_schema_def)
qed

text \<open>
  C38: the documented result columns are the real ones: the \<open>vgi.result_columns_schema\<close> tag of each
  table function is JSON whose items give, in order, the name and the DuckDB type of every column of
  the Arrow schema the function's scan has, each with a non-empty description; the address columns
  are the struct DuckDB shows for them.
\<close>

theorem documented_columns:
  "documents_schema read_rib_metadata rib_schema
   \<and> documents_schema read_updates_metadata updates_schema
   \<and> documents_schema peers_metadata peers_schema"
proof (intro conjI)
  show "documents_schema read_rib_metadata rib_schema"
    by (rule documents_schemaI [OF _ columns_clean(1)])
      (simp_all add: read_rib_metadata_def object_tags_def rib_schema_def read_rib_result_columns_def
        inet_duckdb list_u32_type_def list_str_type_def timestamp_type_def new_list_field_def
        inet_field_def [THEN arg_cong [of _ _ field_name]])
  show "documents_schema read_updates_metadata updates_schema"
    by (rule documents_schemaI [OF _ columns_clean(2)])
      (simp_all add: read_updates_metadata_def object_tags_def updates_schema_def
        read_updates_result_columns_def inet_duckdb list_u32_type_def list_str_type_def
        timestamp_type_def new_list_field_def inet_field_def [THEN arg_cong [of _ _ field_name]])
  show "documents_schema peers_metadata peers_schema"
    by (rule documents_schemaI [OF _ columns_clean(3)])
      (simp_all add: peers_metadata_def object_tags_def peers_schema_def peers_result_columns_def
        inet_duckdb inet_field_def [THEN arg_cong [of _ _ field_name]])
qed

end
