(* ===== verification/Catalog.thy ===== *)
theory Catalog
  imports Scalars Table_Metadata
begin

text \<open>
  \<open>bgp-worker/src/lib.rs\<close>: the catalog the worker publishes (\<open>catalog_metadata\<close>, \<open>example_rib_view\<close>),
  its name, and \<open>build_worker\<close>, which registers every function; \<open>version\<close> of \<open>bgp-core/src/lib.rs\<close> and
  \<open>wasm_init\<close> of \<open>bgp-wasm\<close>. Environment variables are explicit state. Of the SDK's records the
  fields the code sets are kept; \<open>macros\<close> and \<open>tables\<close> are empty and left out.

  The properties are about agreement between parts that nothing but convention ties together: the
  categories objects name and the registry of categories, the names functions are registered and
  documented under, and the sample view and the schema it projects.
\<close>

record cat_view =
  cv_name :: string
  cv_definition :: string
  cv_comment :: "string option"
  cv_tags :: "(string \<times> string) list"
  cv_column_comments :: "(string \<times> string) list"

record cat_schema =
  cs_name :: string
  cs_comment :: "string option"
  cs_tags :: "(string \<times> string) list"
  cs_views :: "cat_view list"

record catalog_model =
  cat_name :: string
  cat_comment :: "string option"
  cat_tags :: "(string \<times> string) list"
  cat_source_url :: "string option"
  cat_implementation_version :: "string option"
  cat_schemas :: "cat_schema list"

text \<open>\<open>CARGO_PKG_VERSION\<close>, which the manifests of the workspace set.\<close>

definition version :: string where "version = ''0.1.1''"

subsection \<open>The sample view\<close>

definition example_rib_view :: cat_view where
  \<open>example_rib_view =
     \<lparr>cv_name = ''example_rib'',
      cv_definition =
        ''SELECT timestamp, view_name, prefix, peer_asn, origin_asn, as_path, next_hop, ''
        @ ''communities FROM bgp.main.read_rib(from_hex('' @ [CHR 0x27] @ RIB_MRT_HEX @ ''\'))'',
      cv_comment = Some
        (''A built-in sample of three decoded TABLE_DUMP_V2 RIB routes '' @ em_dash @ '' browse it to learn the ''
         @ ''reader\'s output columns without supplying an MRT file.''),
      cv_tags =
        object_tags
          (''Sample RIB Rows (built-in fixture)'')
          (''A zero-setup preview of the row shape read_rib produces: three routes decoded from a ''
           @ ''tiny TABLE_DUMP_V2 RIB fixture bundled into the worker. Browse it directly '' @ em_dash @ '' a plain ''
           @ ''no-argument scan '' @ em_dash @ '' to see real decoded columns like timestamp, RIB view name, prefix ''
           @ ''(INET), reporting peer ASN, origin ASN, AS path, next hop (INET), and communities before ''
           @ ''you have a file in hand. It takes no arguments and always returns the same three rows. ''
           @ ''For real data call read_rib / read_updates with a path or URL; this view is only a ''
           @ ''self-describing example.'')
          (''A built-in, no-arguments sample of three decoded TABLE_DUMP_V2 RIB routes, so you can ''
           @ ''browse `bgp.main.example_rib` to learn the reader\'s output columns without an MRT file. ''
           @ ''Cast the INET columns (`prefix`, `next_hop`) with `::INET`. Point read_rib at your own ''
           @ ''archive for real data.'')
          (''sample, example, preview, demo, RIB, TABLE_DUMP_V2, browsable, getting started, prefix, ''
           @ ''INET, AS path, origin ASN'')
          (''MRT readers'')
        @ [(''domain'', ''network-security''), (''topic'', ''mrt-decoding''),
           (''vgi.example_queries'', example_queries_json
             [(''Group the built-in sample routes by origin AS to see how many prefixes each ''
               @ ''announced.'',
               ''SELECT origin_asn, count(*) AS routes FROM bgp.main.example_rib ''
               @ ''GROUP BY origin_asn ORDER BY routes DESC, origin_asn;'')])],
      cv_column_comments =
        [(''timestamp'',
          ''Route timestamp (UTC) from the sample RIB record\'s MRT header.''),
         (''view_name'',
          ''RIB view / collector name from the fixture\'s PEER_INDEX_TABLE.''),
         (''prefix'',
          ''The announced prefix in DuckDB\'s INET physical layout; cast `::INET`.''),
         (''peer_asn'',
          ''The reporting peer\'s autonomous-system number.''),
         (''origin_asn'',
          ''The origin AS (last ASN in as_path) that announced the prefix.''),
         (''as_path'',
          ''The AS path in path order '' @ em_dash @ '' the origin AS is last.''),
         (''next_hop'',
          ''The BGP next-hop address in DuckDB\'s INET physical layout; cast `::INET`.''),
         (''communities'',
          ''BGP communities as strings (standard `asn:value` and RFC 8092 large).'')]\<rparr>\<close>

subsection \<open>The catalog\<close>

definition agent_test_tasks :: "(string \<times> string \<times> string) list" where
  \<open>agent_test_tasks =
     [(''path_hops'',
       ''Given the AS path [7018, 174, 174, 13335], return the number of AS hops as ''
       @ ''a single column named hops.'',
       ''SELECT bgp.main.path_length([7018, 174, 174, 13335]) AS hops''),
      (''origin'',
       ''Given the AS path [7018, 174, 13335], return the origin AS (the AS that ''
       @ ''announced the prefix) as a single column named origin.'',
       ''SELECT bgp.main.origin_asn([7018, 174, 13335]) AS origin''),
      (''large_community'',
       ''Is the community string \'65001:1:2\' a large community? Return a single ''
       @ ''BOOLEAN column named is_large.'',
       ''SELECT bgp.main.is_large_community(\'65001:1:2\') AS is_large''),
      (''rib_count'',
       ''The file data/rib.mrt is an MRT TABLE_DUMP_V2 RIB snapshot. Count how many ''
       @ ''RIB entries it contains and return the count as a single column named ''
       @ ''entries.'',
       ''SELECT count(*) AS entries FROM bgp.main.read_rib(\'data/rib.mrt\')''),
      (''rib_prefix_contains'',
       ''From the RIB snapshot data/rib.mrt, count how many routes cover the ''
       @ ''address 203.0.113.5 (the prefix contains it). Return the count as a single ''
       @ ''column named routes.'',
       ''SELECT count(*) AS routes FROM bgp.main.read_rib(\'data/rib.mrt\') ''
       @ ''WHERE prefix::INET >>= \'203.0.113.5\'::INET''),
      (''prepends'',
       ''Given the AS path [7018, 174, 174, 13335], how many AS-path prepends ''
       @ ''(padded repeated ASNs) does it contain? Return a single column named ''
       @ ''prepends.'',
       ''SELECT bgp.main.as_path_prepends([7018, 174, 174, 13335]) AS prepends''),
      (''traverses'',
       ''Does the AS path [7018, 174, 13335] pass through AS 174 anywhere along ''
       @ ''it? Return a single BOOLEAN column named traverses.'',
       ''SELECT bgp.main.path_contains([7018, 174, 13335], 174) AS traverses''),
      (''community_parts'',
       ''Split the standard BGP community \'65001:100\' into its ASN and value ''
       @ ''parts. Return two columns named asn and value.'',
       ''SELECT bgp.main.community_parse(\'65001:100\').asn AS asn, ''
       @ ''bgp.main.community_parse(\'65001:100\').value AS value''),
      (''update_withdrawals'',
       ''The file data/updates.mrt is an MRT BGP4MP update stream. Count how many ''
       @ ''withdrawal messages it contains and return the count as a single column ''
       @ ''named withdrawals.'',
       ''SELECT count(*) AS withdrawals FROM bgp.main.read_updates(\'data/updates.mrt\') ''
       @ ''WHERE message_type = \'withdraw'' @ [CHR 0x27]),
      (''peer_count'',
       ''The file data/rib.mrt is an MRT TABLE_DUMP_V2 RIB snapshot. How many ''
       @ ''distinct peers does it contain? Return the count as a single column named ''
       @ ''peers.'',
       ''SELECT count(*) AS peers FROM bgp.main.peers(\'data/rib.mrt\')''),
      (''sample_rows'',
       ''The bgp worker exposes a small built-in sample of decoded RIB rows you ''
       @ ''can browse without providing a file. How many rows does that sample ''
       @ ''contain? Return the count as a single column named rows.'',
       ''SELECT count(*) AS rows FROM bgp.main.example_rib'')]\<close>

definition catalog_example_queries :: string where
  \<open>catalog_example_queries =
     ''SELECT bgp.main.path_length([7018, 174, 13335]);'' @ nl
     @ ''SELECT bgp.main.origin_asn([7018, 174, 13335]);'' @ nl
     @ ''SELECT bgp.main.as_path_prepends([7018, 174, 174, 13335]);'' @ nl
     @ ''SELECT bgp.main.path_contains([7018, 174, 13335], 174);'' @ nl
     @ ''SELECT bgp.main.community_parse(\'65001:100\');'' @ nl
     @ ''SELECT bgp.main.is_large_community(\'65001:1:2\');'' @ nl
     @ ''SELECT count(*) FROM bgp.main.read_rib(from_hex('' @ [CHR 0x27] @ RIB_MRT_HEX @ ''\'));'' @ nl
     @ ''SELECT message_type, count(*) FROM ''
     @ ''bgp.main.read_updates(from_hex('' @ [CHR 0x27] @ UPD_MRT_HEX @ ''\')) GROUP BY 1;'' @ nl
     @ ''SELECT peer_ip, peer_asn, collector FROM bgp.main.peers(from_hex('' @ [CHR 0x27] @ RIB_MRT_HEX @ ''\'));''\<close>

definition catalog_executable_examples :: string where
  \<open>catalog_executable_examples =
     ''['' @ nl
     @ ''  {'' @ nl
     @ ''    "description": "AS-path and community helpers over inline literals: hop count, origin AS, prepend count, path membership, large-community classification, and standard-community parse.",'' @ nl
     @ ''    "sql": ['' @ nl
     @ ''      "SELECT bgp.main.path_length([7018, 174, 174, 13335]) AS hops",'' @ nl
     @ ''      "SELECT bgp.main.origin_asn([7018, 174, 13335]) AS origin",'' @ nl
     @ ''      "SELECT bgp.main.as_path_prepends([7018, 174, 174, 13335]) AS prepends",'' @ nl
     @ ''      "SELECT bgp.main.path_contains([7018, 174, 13335], 174) AS via_174",'' @ nl
     @ ''      "SELECT bgp.main.is_large_community(\'65001:1:2\') AS is_large",'' @ nl
     @ ''      "SELECT bgp.main.community_parse(\'65001:100\').asn AS asn"'' @ nl
     @ ''    ]'' @ nl
     @ ''  },'' @ nl
     @ ''  {'' @ nl
     @ ''    "description": "Decode the built-in inline TABLE_DUMP_V2 RIB fixture and count routes per origin AS.",'' @ nl
     @ ''    "sql": "SELECT origin_asn, count(*) AS routes FROM bgp.main.read_rib(from_hex('' @ [CHR 0x27] @ RIB_MRT_HEX @ ''\')) GROUP BY origin_asn ORDER BY routes DESC, origin_asn"'' @ nl
     @ ''  }'' @ nl
     @ '']''\<close>

definition catalog_tags :: "(string \<times> string) list" where
  \<open>catalog_tags =
     [(''vgi.title'',
       ''BGP / MRT Routing-Dump Decoder''),
      (''vgi.keywords'',
       keywords_json
         (''BGP, MRT, BGP4MP, TABLE_DUMP_V2, RIB, routing table, RouteViews, RIPE RIS, ''
          @ ''route collector, AS path, origin ASN, prefix, CIDR, INET, next hop, ''
          @ ''community, large community, announcement, withdrawal, route leak, route ''
          @ ''hijack, prefix hijack, peer, BGP update, network analysis'')),
      (''vgi.doc_llm'',
       ''Decode MRT routing dumps directly in SQL, skipping the usual ETL-to-Parquet step. ''
       @ ''MRT is the archive format RouteViews and RIPE RIS publish: BGP4MP update streams ''
       @ ''(announcements, withdrawals, and session state changes) and TABLE_DUMP_V2 RIB ''
       @ ''snapshots (a full routing table captured at one instant). This worker streams ''
       @ ''those archives into relational rows '' @ em_dash @ '' one row per update message or per RIB ''
       @ ''entry '' @ em_dash @ '' and provides scalar helpers over the AS-path and BGP-community fields ''
       @ ''those rows carry. A source argument accepts a local path, a glob, an `s3://` or ''
       @ ''`http(s)://` URL, or an inline `BLOB` of MRT bytes; gzip and bzip2 archives are ''
       @ ''decompressed transparently. Prefixes, peer IPs, and next hops are emitted in ''
       @ ''DuckDB\'s core INET physical layout (cast with `::INET`) so prefix-containment ''
       @ ''filters and joins against flow or geoip data work without parsing strings. AS ''
       @ ''paths surface as `LIST(UINTEGER)` and communities as `LIST(VARCHAR)`. A malformed ''
       @ ''MRT record yields a row with NULL fields and an `error` column rather than ''
       @ ''aborting the scan (toggle `strict => true`) '' @ em_dash @ '' archives routinely end in a ''
       @ ''truncated tail record. Reach for this worker for route-leak and prefix-hijack ''
       @ ''investigation, RIB diffing between snapshots, and origin-AS analysis. RPKI / ''
       @ ''route-origin validation is intentionally out of scope: emit the origin AS and ''
       @ ''JOIN it against an RPKI/VRP table (ROV lives in vgi-netflow).''),
      (''vgi.doc_md'',
       ''# bgp'' @ nl @ nl @ ''Decode **MRT** routing dumps '' @ em_dash @ '' the archive format RouteViews and RIPE ''
       @ ''RIS publish '' @ em_dash @ '' directly in SQL. MRT comes in two flavors this worker reads: ''
       @ ''**BGP4MP** update streams (announcements, withdrawals, and session state changes) ''
       @ ''and **TABLE_DUMP_V2** RIB snapshots (a full routing table at one instant). ''
       @ ''Streaming them into rows turns route-leak / hijack / RIB-diff analysis into a ''
       @ ''JOIN in the engine instead of an ETL-to-Parquet step.'' @ nl @ nl @ ''A source argument is a ''
       @ ''path (local / glob / `s3://` / `http(s)://`) or an inline `BLOB`; `.gz` / `.bz2` ''
       @ ''inputs auto-decompress. Prefixes, peer IPs, and next hops are DuckDB **INET** ''
       @ ''values (cast with `::INET`), so containment such as `prefix::INET <<= ''
       @ ''\'203.0.113.0/24\'` and prefix joins work directly. AS paths are `LIST(UINTEGER)` ''
       @ ''and BGP communities are `LIST(VARCHAR)`; scalar helpers operate on those columns. ''
       @ ''RPKI / route-origin validation is out of scope '' @ em_dash @ '' JOIN the origin AS against your ''
       @ ''VRP table (ROV lives in vgi-netflow).''),
      (''vgi.agent_test_tasks'',
       agent_test_tasks_json
         (agent_test_tasks)),
      (''vgi.example_queries'',
       catalog_example_queries),
      (''vgi.executable_examples'',
       catalog_executable_examples),
      (''vgi.author'',
       ''Query.Farm''),
      (''vgi.copyright'',
       ''Copyright 2026 Query Farm LLC - https://query.farm''),
      (''vgi.license'',
       ''MIT''),
      (''vgi.support_contact'',
       ''https://github.com/Query-farm/vgi-bgp/issues''),
      (''vgi.support_policy_url'',
       ''https://github.com/Query-farm/vgi-bgp/blob/main/README.md'')]\<close>

definition category_registry :: string where
  \<open>category_registry =
     ''['' @ nl
     @ ''  {"name":"MRT readers","description":"Table functions that stream MRT routing-dump archives '' @ em_dash @ '' BGP4MP update streams and TABLE_DUMP_V2 RIB snapshots '' @ em_dash @ '' into relational rows, with prefixes and peer IPs as DuckDB INET."},'' @ nl
     @ ''  {"name":"AS-path analysis","description":"Scalar helpers over the LIST(UINTEGER) AS-path column: path length, origin AS, prepend counting, and ASN membership tests."},'' @ nl
     @ ''  {"name":"BGP communities","description":"Scalar helpers that parse and classify standard and RFC 8092 large BGP community strings."}'' @ nl
     @ '']''\<close>

definition main_example_queries :: "(string \<times> string) list" where
  \<open>main_example_queries =
     [(''Count the AS hops in an inline AS-path literal.'',
       ''SELECT bgp.main.path_length([7018, 174, 13335]) AS hops;''),
      (''Get the origin AS (last ASN) of an inline AS-path literal.'',
       ''SELECT bgp.main.origin_asn([7018, 174, 13335]) AS origin;''),
      (''Count the prepended (padded) ASNs in an inline AS-path literal.'',
       ''SELECT bgp.main.as_path_prepends([7018, 174, 174, 13335]) AS prepends;''),
      (''Test whether an inline AS path traverses a given ASN.'',
       ''SELECT bgp.main.path_contains([7018, 174, 13335], 174) AS via_174;''),
      (''Split a standard community string into its ASN and value parts.'',
       ''SELECT bgp.main.community_parse(\'65001:100\') AS parts;''),
      (''Classify whether a community string is an RFC 8092 large community.'',
       ''SELECT bgp.main.is_large_community(\'65001:1:2\') AS is_large;''),
      (''Count the RIB entries decoded from the built-in inline TABLE_DUMP_V2 ''
       @ ''fixture.'',
       ''SELECT count(*) AS entries ''
       @ ''FROM bgp.main.read_rib(from_hex('' @ [CHR 0x27] @ RIB_MRT_HEX @ ''\'));''),
      (''Rank the inline RIB routes by AS-path length using the path_length ''
       @ ''helper on the emitted as_path column.'',
       ''SELECT origin_asn, as_path, bgp.main.path_length(as_path) AS hops ''
       @ ''FROM bgp.main.read_rib(from_hex('' @ [CHR 0x27] @ RIB_MRT_HEX @ ''\')) ORDER BY hops;''),
      (''Count each message type in the built-in inline BGP4MP update stream.'',
       ''SELECT message_type, count(*) AS messages ''
       @ ''FROM bgp.main.read_updates(from_hex('' @ [CHR 0x27] @ UPD_MRT_HEX @ ''\')) GROUP BY 1;'')]\<close>

definition main_tags :: "(string \<times> string) list" where
  \<open>main_tags =
     [(''vgi.title'',
       ''BGP '' @ em_dash @ '' main''),
      (''vgi.keywords'',
       keywords_json
         (''read_rib, read_updates, peers, path_length, origin_asn, as_path_prepends, ''
          @ ''path_contains, community_parse, is_large_community, MRT, BGP, INET, ''
          @ ''prefix, AS path'')),
      (''domain'',
       ''network-security''),
      (''category'',
       ''routing-and-bgp''),
      (''topic'',
       ''mrt-decoding''),
      (''vgi.categories'',
       category_registry),
      (''vgi.doc_llm'',
       ''The single schema for the `bgp` worker '' @ em_dash @ '' the catalog name matches the ATTACH ''
       @ ''name, so calls qualify as `bgp.main.<fn>(...)`. It groups two kinds of ''
       @ ''objects: table functions that stream MRT archives (BGP4MP update streams and ''
       @ ''TABLE_DUMP_V2 RIB snapshots) into rows, and scalar helpers that operate on ''
       @ ''the AS-path and BGP-community columns those rows expose. Table-function ''
       @ ''output carries prefix / peer_ip / next_hop as DuckDB INET (cast `::INET`), ''
       @ ''the AS path as `LIST(UINTEGER)`, and communities as `LIST(VARCHAR)`.''),
      (''vgi.doc_md'',
       ''## What this schema covers'' @ nl @ nl
       @ ''MRT is the on-the-wire archive format route collectors such as RouteViews ''
       @ ''and RIPE RIS publish. It comes in two shapes: **BGP4MP** update streams '' @ em_dash @ '' ''
       @ ''the announcements, withdrawals, and session-state changes a collector sees ''
       @ ''over time '' @ em_dash @ '' and **TABLE_DUMP_V2** RIB snapshots, a full routing table frozen ''
       @ ''at one instant.'' @ nl @ nl
       @ ''This schema streams those archives into relational rows, so route-leak, ''
       @ ''prefix-hijack, and RIB-diff analysis becomes a JOIN in the engine instead of ''
       @ ''an ETL-to-Parquet step. One kind of object streams an archive into rows; ''
       @ ''another operates on the AS-path and BGP-community values each row carries.'' @ nl @ nl
       @ ''## Data model'' @ nl @ nl
       @ ''Prefixes, peer IPs, and next hops are emitted in DuckDB\'s core **INET** ''
       @ ''physical layout, so cast them with `::INET` for containment such as ''
       @ ''`prefix::INET <<= \'203.0.113.0/24\'` and for joins against flow or ''
       @ ''geolocation data. AS paths surface as `UINTEGER[]` and communities as ''
       @ ''`VARCHAR[]`.'' @ nl @ nl
       @ ''## When to reach for it'' @ nl @ nl
       @ ''Reach for it for route-leak and prefix-hijack investigation, for diffing two ''
       @ ''RIB snapshots over time, and for origin-AS analysis. Since the catalog name ''
       @ ''matches the ATTACH name, calls qualify as `bgp.main.<name>(...)`. RPKI / ''
       @ ''route-origin validation is out of scope here '' @ em_dash @ '' JOIN the origin AS against ''
       @ ''your own VRP table.''),
      (''vgi.example_queries'',
       example_queries_json
         (main_example_queries))]\<close>

definition main_schema :: cat_schema where
  \<open>main_schema =
     \<lparr>cs_name = ''main'',
      cs_comment = Some
        (''MRT decode (read_rib / read_updates / peers) plus AS-path and community helper ''
         @ ''functions.''),
      cs_tags = main_tags,
      cs_views = [example_rib_view]\<rparr>\<close>

definition catalog_metadata :: "string \<Rightarrow> catalog_model" where
  \<open>catalog_metadata name =
     \<lparr>cat_name = name,
      cat_comment = Some
        (''Decode MRT routing dumps (BGP4MP updates + TABLE_DUMP_V2 RIB snapshots) into SQL ''
         @ ''rows, reusing the core INET type for prefixes and peer IPs.''),
      cat_tags = catalog_tags,
      cat_source_url = Some ''https://github.com/Query-farm/vgi-bgp'',
      cat_implementation_version = Some version,
      cat_schemas = [main_schema]\<rparr>\<close>

subsection \<open>The worker\<close>

text \<open>
  The process environment. A value need not be Unicode: \<open>var_os\<close> sees it, \<open>var\<close> does not, and
  \<open>utf8\<close> tells the two apart.
\<close>

type_synonym process_env = "string \<rightharpoonup> string"

definition catalog_name :: "(string \<Rightarrow> bool) \<Rightarrow> process_env \<Rightarrow> string \<times> process_env" where
  "catalog_name utf8 env =
     (let env' = (if env ''VGI_WORKER_CATALOG_NAME'' = None
                  then env(''VGI_WORKER_CATALOG_NAME'' \<mapsto> ''bgp'') else env)
      in (case env' ''VGI_WORKER_CATALOG_NAME'' of
            Some v \<Rightarrow> if utf8 v then v else ''bgp''
          | None \<Rightarrow> ''bgp'', env'))"

record 's worker =
  wk_scalars :: "scalar_function list"
  wk_tables :: "'s table_function list"
  wk_catalog :: catalog_model

definition build_worker :: "(string \<Rightarrow> bool) \<Rightarrow> process_env \<Rightarrow> 's worker \<times> process_env" where
  "build_worker utf8 env =
     (let (name, env') = catalog_name utf8 env
      in (\<lparr>wk_scalars = registered_scalars, wk_tables = registered_tables,
           wk_catalog = catalog_metadata name\<rparr>, env'))"

definition wasm_init :: "process_env \<Rightarrow> process_env" where
  "wasm_init env =
     (if env ''VGI_WORKER_SHARED_STORAGE'' = None
      then env(''VGI_WORKER_SHARED_STORAGE'' \<mapsto> ''memory'') else env)"

subsection \<open>Categories and names\<close>

text \<open>The names in the registry of categories.\<close>

definition item_names :: "json \<Rightarrow> string list" where
  "item_names j =
     (case j of JArr items \<Rightarrow>
        List.map_filter (\<lambda>i. case i of
          JObj ms \<Rightarrow> (case map_of ms ''name'' of Some (JStr n) \<Rightarrow> Some n | _ \<Rightarrow> None)
        | _ \<Rightarrow> None) items
      | _ \<Rightarrow> [])"

definition object_tag_lists :: "(string \<times> string) list list" where
  "object_tag_lists =
     map (md_tags \<circ> sf_metadata) registered_scalars
     @ map (\<lambda>f. md_tags (tf_metadata f)) (registered_tables :: unit table_function list)
     @ map cv_tags (cs_views main_schema)"

lemma registry_parsed:
  "map_option item_names (parse_json category_registry)
     = Some [''MRT readers'', ''AS-path analysis'', ''BGP communities'']"
  by code_simp

lemma category_tags:
  "map (\<lambda>tags. map_of tags ''vgi.category'') object_tag_lists
     = map Some (replicate 4 ''AS-path analysis'' @ replicate 2 ''BGP communities'' @ replicate 4 ''MRT readers'')"
  by (simp add: object_tag_lists_def registered_scalars_def registered_tables_def function_defs
      read_rib_function_def read_updates_function_def peers_function_def read_rib_metadata_def
      read_updates_metadata_def peers_metadata_def main_schema_def example_rib_view_def object_tags_def
      numeral_eq_Suc)

lemma registry_tag: "map_of main_tags ''vgi.categories'' = Some category_registry"
  by (simp add: main_tags_def)

text \<open>
  C39: every object names a registered category: the \<open>vgi.categories\<close> tag of the schema is JSON, and the
  \<open>vgi.category\<close> tag of each of the six scalar functions, the three table functions and the sample view
  is the name of one of its entries; no entry is left without an object.
\<close>

theorem objects_categorised:
  "\<exists>registry. Option.bind (map_of main_tags ''vgi.categories'') parse_json = Some registry
     \<and> list_all (\<lambda>tags. \<exists>c. map_of tags ''vgi.category'' = Some c \<and> c \<in> set (item_names registry)) object_tag_lists
     \<and> set (item_names registry) = {c. \<exists>tags \<in> set object_tag_lists. map_of tags ''vgi.category'' = Some c}"
proof -
  obtain registry where r: "parse_json category_registry = Some registry"
      "item_names registry = [''MRT readers'', ''AS-path analysis'', ''BGP communities'']"
    using registry_parsed by auto
  have cats: "(\<lambda>tags. map_of tags ''vgi.category'') ` set object_tag_lists
      = Some ` {''AS-path analysis'', ''BGP communities'', ''MRT readers''}"
    using arg_cong [OF category_tags, of set] by auto
  then have "map_of tags ''vgi.category'' \<in> Some ` {''AS-path analysis'', ''BGP communities'', ''MRT readers''}"
    if "tags \<in> set object_tag_lists" for tags using that by blast
  moreover have "c \<in> {''AS-path analysis'', ''BGP communities'', ''MRT readers''} \<longleftrightarrow>
      (\<exists>tags \<in> set object_tag_lists. map_of tags ''vgi.category'' = Some c)" for c
  proof -
    have "c \<in> {''AS-path analysis'', ''BGP communities'', ''MRT readers''} \<longleftrightarrow>
      Some c \<in> Some ` {''AS-path analysis'', ''BGP communities'', ''MRT readers''}" by blast
    also have "\<dots> \<longleftrightarrow> (\<exists>tags \<in> set object_tag_lists. map_of tags ''vgi.category'' = Some c)"
      unfolding cats [symmetric] by (auto simp: image_iff eq_commute)
    finally show ?thesis .
  qed
  ultimately show ?thesis
    using r registry_tag by (auto simp: list_all_iff)
qed

subsection \<open>The worker\<close>

definition function_names :: "string list" where
  "function_names = map sf_name registered_scalars
     @ map tf_name (registered_tables :: unit table_function list)"

lemma function_names_eq:
  "function_names = [''path_length'', ''origin_asn'', ''as_path_prepends'', ''path_contains'',
     ''community_parse'', ''is_large_community'', ''read_rib'', ''read_updates'', ''peers'']"
  by (simp add: function_names_def registered_scalars_def registered_tables_def function_defs
      read_rib_function_def read_updates_function_def peers_function_def)

definition text_items :: "json \<Rightarrow> string list" where
  "text_items j =
     (case j of JArr items \<Rightarrow> List.map_filter (\<lambda>i. case i of JStr s \<Rightarrow> Some s | _ \<Rightarrow> None) items | _ \<Rightarrow> [])"

lemma keywords_parsed:
  "map_option text_items (Option.bind (map_of main_tags ''vgi.keywords'') parse_json)
     = Some [''read_rib'', ''read_updates'', ''peers'', ''path_length'', ''origin_asn'', ''as_path_prepends'',
        ''path_contains'', ''community_parse'', ''is_large_community'', ''MRT'', ''BGP'', ''INET'',
        ''prefix'', ''AS path'']"
  by code_simp

text \<open>
  What building the worker yields: the catalog takes the name of the environment override when
  that is Unicode and \<open>bgp\<close> otherwise, the variable is set afterwards, and building again gives the
  same worker and leaves the environment alone; the functions registered have distinct names, and
  each name is among the keywords the schema publishes.
\<close>

theorem worker_registered:
  "cat_name (wk_catalog (fst (build_worker utf8 env :: unit worker \<times> process_env)))
     = (case env ''VGI_WORKER_CATALOG_NAME'' of Some v \<Rightarrow> if utf8 v then v else ''bgp'' | None \<Rightarrow> ''bgp'')
   \<and> snd (build_worker utf8 env :: unit worker \<times> process_env)
     = (case env ''VGI_WORKER_CATALOG_NAME'' of
          Some v \<Rightarrow> env | None \<Rightarrow> env(''VGI_WORKER_CATALOG_NAME'' \<mapsto> ''bgp''))
   \<and> build_worker utf8 (snd (build_worker utf8 env :: unit worker \<times> process_env))
     = (build_worker utf8 env :: unit worker \<times> process_env)
   \<and> distinct function_names
   \<and> (\<exists>j. Option.bind (map_of main_tags ''vgi.keywords'') parse_json = Some j
        \<and> set function_names \<subseteq> set (text_items j))"
proof (intro conjI)
  obtain j where j: "Option.bind (map_of main_tags ''vgi.keywords'') parse_json = Some j"
      "text_items j = [''read_rib'', ''read_updates'', ''peers'', ''path_length'', ''origin_asn'',
        ''as_path_prepends'', ''path_contains'', ''community_parse'', ''is_large_community'', ''MRT'',
        ''BGP'', ''INET'', ''prefix'', ''AS path'']"
    using keywords_parsed by auto
  have "set function_names \<subseteq> set (text_items j)"
    unfolding j(2) function_names_eq by simp
  with j(1) show "\<exists>j. Option.bind (map_of main_tags ''vgi.keywords'') parse_json = Some j
        \<and> set function_names \<subseteq> set (text_items j)" by blast
  show "distinct function_names" by (simp add: function_names_eq)
qed (auto simp: build_worker_def catalog_name_def catalog_metadata_def split: option.split)

text \<open>
  The sample view is consistent: its query selects exactly the columns it comments, in that order,
  each of them a column of \<open>read_rib\<close>, from the built-in fixture; and the texts of the catalog that
  are built as JSON (tasks, examples of the schema) parse.
\<close>

theorem sample_view_columns:
  "cv_definition example_rib_view =
     ''SELECT '' @ join '', '' (map fst (cv_column_comments example_rib_view))
     @ '' FROM bgp.main.read_rib(from_hex('' @ [CHR 0x27] @ RIB_MRT_HEX @ [CHR 0x27] @ ''))''
   \<and> list_all (\<lambda>c. c \<in> set (map field_name rib_schema)) (map fst (cv_column_comments example_rib_view))
   \<and> parse_json (agent_test_tasks_json agent_test_tasks) \<noteq> None
   \<and> parse_json (example_queries_json main_example_queries) \<noteq> None"
proof (intro conjI)
  show "cv_definition example_rib_view =
     ''SELECT '' @ join '', '' (map fst (cv_column_comments example_rib_view))
     @ '' FROM bgp.main.read_rib(from_hex('' @ [CHR 0x27] @ RIB_MRT_HEX @ [CHR 0x27] @ ''))''"
    by (simp add: example_rib_view_def)
  show "list_all (\<lambda>c. c \<in> set (map field_name rib_schema)) (map fst (cv_column_comments example_rib_view))"
    by (simp add: example_rib_view_def rib_schema_def inet_field_def)
  have "list_all (\<lambda>(n, p, r). clean True n \<and> clean True p \<and> clean True r) agent_test_tasks" by code_simp
  then show "parse_json (agent_test_tasks_json agent_test_tasks) \<noteq> None"
    unfolding builders_render parse_render clean_builders by simp
  have "list_all (\<lambda>(d, s). clean False d \<and> clean False s) main_example_queries"
    by (simp add: main_example_queries_def clean_simps clean_fixtures)
  then show "parse_json (example_queries_json main_example_queries) \<noteq> None"
    unfolding builders_render parse_render clean_builders by simp
qed

end
