(* ===== verification/Entry.thy ===== *)
theory Entry
  imports Catalog
begin

text \<open>
  The two programs built from the worker: the native binary, \<open>bgp-worker/src/main.rs\<close>, and the browser
  build, \<open>bgp-wasm/src/lib.rs\<close>, whose exported functions an SDK macro generates from an init hook and
  a builder. \<open>host\<close> holds what the programs call outside the repository: the logger, which takes its
  filter from a variable of the environment or from a default and may refuse to be installed twice,
  and the loop that serves a worker.

  The lemmas show that a refused logger does not stop the worker and that both builds serve the same
  functions and catalog.
\<close>

record ('s, 'r) host =
  try_init_logger :: "string \<Rightarrow> string \<Rightarrow> process_env \<Rightarrow> string + unit"
  run_worker :: "'s worker \<Rightarrow> process_env \<Rightarrow> 'r"

definition native_main :: "('s, 'r) host \<Rightarrow> (string \<Rightarrow> bool) \<Rightarrow> process_env \<Rightarrow> (string + unit) \<times> 'r" where
  "native_main h utf8 env =
     (let logged = try_init_logger h ''VGI_LOG'' ''info'' env;
          (worker, env') = build_worker utf8 env
      in (logged, run_worker h worker env'))"

text \<open>What the macro is given: the hook runs once, then each slot builds its worker.\<close>

record 's wasm_worker =
  wasm_init_hook :: "process_env \<Rightarrow> process_env"
  wasm_build :: "process_env \<Rightarrow> 's worker \<times> process_env"

definition bgp_wasm :: "(string \<Rightarrow> bool) \<Rightarrow> 's wasm_worker" where
  "bgp_wasm utf8 = \<lparr>wasm_init_hook = wasm_init, wasm_build = build_worker utf8\<rparr>"

fun serve_slots :: "'s wasm_worker \<Rightarrow> nat \<Rightarrow> process_env \<Rightarrow> 's worker list \<times> process_env" where
  "serve_slots m 0 env = ([], env)"
| "serve_slots m (Suc n) env =
     (let (worker, env1) = wasm_build m env; (workers, env2) = serve_slots m n env1
      in (worker # workers, env2))"

lemma build_worker_env:
  "fst (build_worker utf8 env) = \<lparr>wk_scalars = registered_scalars, wk_tables = registered_tables,
     wk_catalog = catalog_metadata (fst (catalog_name utf8 env))\<rparr>"
  "snd (build_worker utf8 env) = snd (catalog_name utf8 env)"
  by (simp_all add: build_worker_def split: prod.split)

lemma catalog_name_wasm:
  "fst (catalog_name utf8 (wasm_init env)) = fst (catalog_name utf8 env)"
  "fst (catalog_name utf8 (snd (catalog_name utf8 env'))) = fst (catalog_name utf8 env')"
  by (simp_all add: catalog_name_def wasm_init_def)

lemma serve_slots_same:
  "fst (catalog_name utf8 env) = name \<Longrightarrow>
   fst (serve_slots (bgp_wasm utf8) n env) = replicate n
     \<lparr>wk_scalars = registered_scalars, wk_tables = registered_tables, wk_catalog = catalog_metadata name\<rparr>"
proof (induction n arbitrary: env)
  case 0
  then show ?case by simp
next
  case (Suc n)
  then have "fst (catalog_name utf8 (snd (catalog_name utf8 env))) = name"
    by (simp add: catalog_name_wasm)
  from Suc.IH [OF this] Suc.prems show ?case
    by (simp add: bgp_wasm_def case_prod_beta build_worker_env)
qed

text \<open>
  Both builds serve the same worker: after the init hook every slot of the browser build gets the
  worker the native binary runs, whatever the environment and however many slots; and the native
  binary runs it whether or not the logger could be installed. The hook selects a shared storage
  only where none is chosen and touches nothing else.
\<close>

theorem builds_agree:
  "fst (serve_slots (bgp_wasm utf8) n (wasm_init_hook (bgp_wasm utf8 :: 's wasm_worker) env))
     = replicate n (fst (build_worker utf8 env) :: 's worker)
   \<and> snd (native_main h utf8 env) = (case build_worker utf8 env of (w, env') \<Rightarrow> run_worker h w env')
   \<and> wasm_init env ''VGI_WORKER_SHARED_STORAGE''
     = Some (case env ''VGI_WORKER_SHARED_STORAGE'' of Some v \<Rightarrow> v | None \<Rightarrow> ''memory'')
   \<and> wasm_init env |` (- {''VGI_WORKER_SHARED_STORAGE''}) = env |` (- {''VGI_WORKER_SHARED_STORAGE''})"
proof (intro conjI)
  have hook: "wasm_init_hook (bgp_wasm utf8 :: 's wasm_worker) = wasm_init" by (simp add: bgp_wasm_def)
  show "fst (serve_slots (bgp_wasm utf8) n (wasm_init_hook (bgp_wasm utf8 :: 's wasm_worker) env))
      = replicate n (fst (build_worker utf8 env) :: 's worker)"
    unfolding hook using serve_slots_same [OF catalog_name_wasm(1)] by (simp add: build_worker_env)
qed (auto simp: native_main_def wasm_init_def case_prod_beta Let_def split: option.split)

end
