(* ===== verification/Fixtures.thy ===== *)
theory Fixtures
  imports Meta
begin

text \<open>
  What the two fixtures of \<open>meta.rs\<close> contain, read by the framing of RFC 6396: each record is a 12-byte
  header (time, type, subtype, length of the body) and its body; a RIB record starts with a sequence
  number, the prefix length, as many prefix bytes as it needs, and the number of entries. This
  reading is a specification and maps to no code: the program hands the bytes to its parser crate.
\<close>

definition hex_digit :: "char \<Rightarrow> int option" where
  "hex_digit c =
     (let n = (of_char c :: int)
      in if 48 \<le> n \<and> n \<le> 57 then Some (n - 48)
         else if 97 \<le> n \<and> n \<le> 102 then Some (n - 87) else None)"

fun from_hex :: "string \<Rightarrow> int list option" where
  "from_hex [] = Some []"
| "from_hex [c] = None"
| "from_hex (c # d # s) =
     (case hex_digit c of
        None \<Rightarrow> None
      | Some h \<Rightarrow>
          (case hex_digit d of
             None \<Rightarrow> None
           | Some l \<Rightarrow> map_option (Cons (16 * h + l)) (from_hex s)))"

definition big_endian :: "int list \<Rightarrow> int" where
  "big_endian bs = foldl (\<lambda>a b. 256 * a + b) 0 bs"

text \<open>The type, subtype and body of the first record, and the bytes behind it.\<close>

definition mrt_frame :: "int list \<Rightarrow> ((int \<times> int \<times> int list) \<times> int list) option" where
  "mrt_frame bs =
     (let header = take 12 bs; rest = drop 12 bs; len = nat (big_endian (drop 8 header))
      in if length header < 12 \<or> length rest < len then None
         else Some ((big_endian (take 2 (drop 4 header)), big_endian (take 2 (drop 6 header)), take len rest),
                    drop len rest))"

text \<open>The records of a stream, at most \<open>n\<close> of them; the bytes must end with a record.\<close>

fun mrt_frames :: "nat \<Rightarrow> int list \<Rightarrow> (int \<times> int \<times> int list) list option" where
  "mrt_frames 0 bs = (if bs = [] then Some [] else None)"
| "mrt_frames (Suc n) bs =
     (if bs = [] then Some []
      else Option.bind (mrt_frame bs) (\<lambda>(r, rest). map_option (Cons r) (mrt_frames n rest)))"

definition rib_route :: "int list \<Rightarrow> int \<times> int list \<times> int" where
  "rib_route body =
     (let plen = hd (drop 4 body); n = nat ((plen + 7) div 8); rest = drop 5 body
      in (plen, take n rest, big_endian (take 2 (drop n rest))))"

definition fixture_frames :: "string \<Rightarrow> (int \<times> int \<times> int list) list option" where
  "fixture_frames hex = Option.bind (from_hex hex) (mrt_frames 8)"

text \<open>The type and subtype of each record, and the route of a record behind the peer index.\<close>

definition frame_summary :: "int \<times> int \<times> int list \<Rightarrow> (int \<times> int) \<times> (int \<times> int list \<times> int) option" where
  "frame_summary fr =
     (case fr of (t, s, body) \<Rightarrow> ((t, s), if t = 13 \<and> s \<noteq> 1 then Some (rib_route body) else None))"

text \<open>
  The fixtures are whole MRT streams: \<open>RIB_MRT_HEX\<close> is exactly three TABLE_DUMP_V2 records, the peer
  index and two RIB records that hold three entries: one for \<open>2001:db8:abcd::/48\<close> and two for
  \<open>203.0.113.0/24\<close> (the constant's documentation names three other prefixes); \<open>UPD_MRT_HEX\<close> is
  exactly three BGP4MP messages with four-byte ASNs.
\<close>

theorem fixtures_framed:
  "map_option (map frame_summary) (fixture_frames RIB_MRT_HEX)
     = Some [((13, 1), None), ((13, 4), Some (48, [0x20, 0x01, 0x0d, 0xb8, 0xab, 0xcd], 1)),
             ((13, 2), Some (24, [203, 0, 113], 2))]
   \<and> map_option (map frame_summary) (fixture_frames UPD_MRT_HEX)
     = Some [((17, 4), None), ((17, 4), None), ((17, 4), None)]"
proof
  show "map_option (map frame_summary) (fixture_frames RIB_MRT_HEX)
     = Some [((13, 1), None), ((13, 4), Some (48, [0x20, 0x01, 0x0d, 0xb8, 0xab, 0xcd], 1)),
             ((13, 2), Some (24, [203, 0, 113], 2))]"
    by code_simp
  show "map_option (map frame_summary) (fixture_frames UPD_MRT_HEX)
     = Some [((17, 4), None), ((17, 4), None), ((17, 4), None)]"
    by code_simp
qed

end
