(* ===== verification/Table_Scans.thy ===== *)
theory Table_Scans
  imports Table_Functions
begin

text \<open>
  A whole call of \<open>read_rib\<close> or \<open>read_updates\<close>: arguments, source resolution, producer, batches and Arrow
  columns put together. \<open>scans\<close> is what the engine sees when it asks a producer for record batches until
  there is none; the property says that this is the abstract scan of the resolved sources, as columns.
\<close>

inductive scans :: "('s, 'x, 'e) rt \<Rightarrow> ('s, 'e) producer \<Rightarrow> record_batch list \<Rightarrow> bool"
  for rt :: "('s, 'x, 'e) rt" where
  scans_end: "pull_batch rt p = Some (Inr None, p') \<Longrightarrow> scans rt p []"
| scans_batch: "pull_batch rt p = Some (Inr (Some b), p') \<Longrightarrow> scans rt p' bs \<Longrightarrow> scans rt p (b # bs)"

definition table_schema :: "kind \<Rightarrow> schema" where
  "table_schema k = (case k of Rib \<Rightarrow> rib_schema | Updates \<Rightarrow> updates_schema)"

definition table_batch :: "kind \<Rightarrow> mrt_row list \<Rightarrow> record_batch" where
  "table_batch k rows =
     \<lparr>rb_schema = table_schema k, rb_columns = (case k of Rib \<Rightarrow> rib_columns rows | Updates \<Rightarrow> updates_columns rows)\<rparr>"

lemma pull_batch_rows:
  assumes "parser_progress (rt_kit rt)" "try_new_accepts (rt_try_new rt)" "producer_ok p"
    and "schema p = table_schema (kind p)" "pull_rows rt (batch_rows (rt_world rt)) p = Some (Inr now, p')"
  shows "pull_batch rt p = Some (Inr (if now = [] then None else Some (table_batch (kind p) now)), p')"
    and "producer_ok p' \<and> schema p' = schema p \<and> kind p' = kind p"
proof -
  have "0 < batch_rows (rt_world rt)"
    by (rule batch_rows_positive)
  from pull_rows_keeps [OF assms(1,3,5) this]
  show same: "producer_ok p' \<and> schema p' = schema p \<and> kind p' = kind p" by (simp add: same_scan_def)
  then show "pull_batch rt p = Some (Inr (if now = [] then None else Some (table_batch (kind p) now)), p')"
    using assms(4,5) try_new_tables(1,2) [OF assms(2)]
    by (simp add: pull_batch_def finish_batch_def build_batch_def table_batch_def table_schema_def
        split: kind.splits)
qed

lemma drained_scans:
  assumes "drains mrt_pull sp groups e" "e = None" "sp = (rt, batch_rows (rt_world rt), p)"
    and "parser_progress (rt_kit rt)" "try_new_accepts (rt_try_new rt)" "producer_ok p"
    and "schema p = table_schema (kind p)"
  shows "scans rt p (map (table_batch (kind p)) groups)"
  using assms
proof (induction arbitrary: p rule: drains.induct)
  case (drain_end sp sp')
  then obtain p' where rows: "pull_rows rt (batch_rows (rt_world rt)) p = Some (Inr [], p')"
    by (auto simp: mrt_pull_def)
  then have "pull_batch rt p = Some (Inr None, p')" by (simp add: pull_batch_def finish_batch_def)
  then show ?case by (auto intro: scans_end)
next
  case (drain_batch sp now sp' bs e)
  then obtain p' where rows: "pull_rows rt (batch_rows (rt_world rt)) p = Some (Inr now, p')"
      "sp' = (rt, batch_rows (rt_world rt), p')"
    by (auto simp: mrt_pull_def)
  note batch = pull_batch_rows [OF drain_batch.prems(3-6) rows(1)]
  have "scans rt p' (map (table_batch (kind p')) bs)"
    by (rule drain_batch.IH) (use drain_batch.prems rows(2) batch(2) in simp_all)
  with batch drain_batch.hyps(2) show ?case by (auto intro: scans_batch)
qed simp_all

lemma reader_call:
  assumes "parser_progress (rt_kit rt)" "try_new_accepts (rt_try_new rt)"
    and "source args 0 = Inr src" "resolve_sources (rt_world rt) src sec (cloud_overrides args) = Inr srcs"
    and "scan_run rt (strict_option args) srcs None cs None"
  shows "\<exists>p groups. reader_producer rt k args sec (table_schema k) = Inr p
    \<and> scans rt p (map (table_batch k) groups) \<and> concat groups = concat cs \<and> [] \<notin> set groups"
proof -
  let ?p = "producer_new (rt_kit rt) (table_schema k) k (strict_option args) srcs"
  have pos: "0 < batch_rows (rt_world rt)"
    by (rule batch_rows_positive)
  obtain groups where g: "drains mrt_pull (rt, batch_rows (rt_world rt), ?p) groups None"
      "concat cs = concat groups" "[] \<notin> set groups"
    using drain_new [OF assms(1) pos assms(5), of "rt_kit rt" "table_schema k" k] by auto
  have "scans rt ?p (map (table_batch (kind ?p)) groups)"
    by (rule drained_scans [OF g(1) refl refl assms(1,2)]) (simp_all add: producer_new_ok)
  moreover have "reader_producer rt k args sec (table_schema k) = Inr ?p"
    using assms(3,4) by (simp add: reader_producer_def)
  ultimately show ?thesis using g(2,3) by auto
qed

text \<open>
  C1: a call of \<open>read_rib\<close> or \<open>read_updates\<close> returns its sources, decoded: when the \<open>src\<close> argument is
  well formed and resolves to sources whose scan ends without an error (which without \<open>strict\<close> means
  that each can be opened), the producer the call builds yields a finite sequence of non-empty
  record batches in the declared schema and then the end, and the batches are the columns of
  exactly the scan's rows, in order.
\<close>

theorem table_call_returns_scan:
  assumes "parser_progress (rt_kit rt)" and "try_new_accepts (rt_try_new rt)"
    and "source args 0 = Inr src" and "resolve_sources (rt_world rt) src sec (cloud_overrides args) = Inr srcs"
    and "scan_run rt (strict_option args) srcs None cs None"
  shows "(\<exists>p groups. read_rib_producer rt args sec rib_schema = Inr p
      \<and> scans rt p (map (\<lambda>rows. \<lparr>rb_schema = rib_schema, rb_columns = rib_columns rows\<rparr>) groups)
      \<and> concat groups = concat cs \<and> [] \<notin> set groups)
    \<and> (\<exists>p groups. read_updates_producer rt args sec updates_schema = Inr p
      \<and> scans rt p (map (\<lambda>rows. \<lparr>rb_schema = updates_schema, rb_columns = updates_columns rows\<rparr>) groups)
      \<and> concat groups = concat cs \<and> [] \<notin> set groups)"
  using reader_call [OF assms, of Rib] reader_call [OF assms, of Updates]
  by (simp add: table_batch_def table_schema_def read_rib_producer_def read_updates_producer_def
      cong: map_cong)

definition blob_args :: "u8 list \<Rightarrow> arguments" where
  "blob_args bs = \<lparr>const_str = (\<lambda>_. None), arg_at = (\<lambda>i. if i = 0 then Some (BinaryArray [Some bs]) else None),
     named_bool = (\<lambda>_. None), named_str = (\<lambda>_. None)\<rparr>"

theorem table_call_returns_scan_witness:
  "\<exists>p groups. read_rib_producer toy_rt (blob_args [1, 2, 3]) no_secrets rib_schema = Inr p
     \<and> scans toy_rt p (map (\<lambda>rows. \<lparr>rb_schema = rib_schema, rb_columns = rib_columns rows\<rparr>) groups)
     \<and> concat groups = [toy_row 1, toy_row 2, toy_row 3]"
proof -
  have run: "scan_run toy_rt (strict_option (blob_args [1, 2, 3])) [BytesSource [1, 2, 3]] None
      (map (\<lambda>b. [toy_row b]) [1, 2, 3]) None"
    by (rule toy_scan_run) (simp_all add: good_bytes_def)
  have "source (blob_args [1, 2, 3]) 0 = Inr (Bytes [1, 2, 3])"
    by (simp add: source_def blob_args_def)
  from table_call_returns_scan [OF _ _ this _ run, of no_secrets] show ?thesis
    by (auto simp: toy_progress arrow_try_new_accepts)
qed

end
