(* ===== verification/Http_Calls.thy ===== *)
theory Http_Calls
  imports Table_Scans
begin

text \<open>
  A whole call over the HTTP transport: every response builds the producer of the call again from its
  arguments, restores it from the position returned with the last batch, asks it for one batch and
  encodes the new position. \<open>responses\<close> is the sequence of batches a client gets that way.
\<close>

inductive responses ::
  "('s, 'x, 'e) rt \<Rightarrow> ('s, 'e) producer rpc_result \<Rightarrow> u8 list option \<Rightarrow> record_batch list \<Rightarrow> bool"
  for rt :: "('s, 'x, 'e) rt" and built :: "('s, 'e) producer rpc_result" where
  responses_end: "built = Inr first \<Longrightarrow> next_batch rt (http_state first token) = Some (Inr None, p') \<Longrightarrow>
    responses rt built token []"
| responses_batch: "built = Inr first \<Longrightarrow> next_batch rt (http_state first token) = Some (Inr (Some b), p') \<Longrightarrow>
    resume_supported p' \<Longrightarrow> responses rt built (Some (encode_resume p')) bs \<Longrightarrow>
    responses rt built token (b # bs)"

inductive_cases responsesE: "responses rt built token bs"

lemma responses_det: "responses rt built token bs \<Longrightarrow> responses rt built token bs' \<Longrightarrow> bs' = bs"
proof (induction arbitrary: bs' rule: responses.induct)
  case (responses_end first token p')
  from responses_end(3) show ?case by (rule responsesE) (use responses_end(1,2) in auto)
next
  case (responses_batch first token b p' bs)
  from responses_batch(6) show ?case by (rule responsesE) (use responses_batch(1,2,5) in auto)
qed

lemma restored_state:
  "producer_ok (http_state (producer_new kit sch k st srcs) token)"
  "schema (http_state (producer_new kit sch k st srcs) token) = sch"
  "kind (http_state (producer_new kit sch k st srcs) token) = k"
  by (auto simp: http_state_def restore_resume_defs producer_ok_def Let_def split: option.split)

lemma drained_responses:
  assumes "drains http_pull sp groups e" "e = None"
    and "sp = (rt, batch_rows (rt_world rt), producer_new (rt_kit rt) (table_schema k) k st srcs, token)"
    and "parser_progress (rt_kit rt)" "try_new_accepts (rt_try_new rt)"
  shows "responses rt (Inr (producer_new (rt_kit rt) (table_schema k) k st srcs)) token (map (table_batch k) groups)"
  using assms
proof (induction arbitrary: token rule: drains.induct)
  case (drain_end sp sp')
  then obtain p' where
    "pull_rows rt (batch_rows (rt_world rt)) (http_state (producer_new (rt_kit rt) (table_schema k) k st srcs) token)
      = Some (Inr [], p')" by (auto simp: http_pull_def)
  then show ?case by (auto intro: responses_end simp: next_batch_def pull_batch_def finish_batch_def)
next
  case (drain_batch sp now sp' bs e)
  let ?p = "producer_new (rt_kit rt) (table_schema k) k st srcs"
  from drain_batch obtain p' where
    rows: "pull_rows rt (batch_rows (rt_world rt)) (http_state ?p token) = Some (Inr now, p')"
      "sp' = (rt, batch_rows (rt_world rt), ?p, Some (encode_resume p'))"
    by (auto simp: http_pull_def)
  have "next_batch rt (http_state ?p token) = Some (Inr (Some (table_batch k now)), p')"
    using pull_batch_rows(1) [OF drain_batch.prems(3,4) restored_state(1) _ rows(1)] drain_batch.hyps(2)
    by (simp add: next_batch_def restored_state)
  moreover have "responses rt (Inr ?p) (Some (encode_resume p')) (map (table_batch k) bs)"
    by (rule drain_batch.IH) (use drain_batch.prems rows(2) in simp_all)
  ultimately show ?case by (auto intro: responses_batch simp: resume_supported_def)
qed simp_all

subsection \<open>Properties\<close>

text \<open>
  C4: a call over HTTP returns its sources, decoded: when the \<open>src\<close> argument is well formed and resolves
  to sources that are safe to resume and whose scan ends without an error, the responses to a call of
  \<open>read_rib\<close> or \<open>read_updates\<close>, each from a producer built anew and restored from the last position, are
  non-empty batches in the declared schema that hold exactly the scan's rows, in order, and then the
  end; and no other sequence of responses is possible.
\<close>

theorem http_call_returns_scan:
  assumes "parser_progress (rt_kit rt)" and "try_new_accepts (rt_try_new rt)"
    and "source args 0 = Inr src" and "resolve_sources (rt_world rt) src sec (cloud_overrides args) = Inr srcs"
    and "length srcs < 2 ^ 64" and "resume_safe rt (strict_option args) srcs"
    and "scan_run rt (strict_option args) srcs None cs None"
  shows "(\<exists>groups. (\<forall>bs. responses rt (read_rib_producer rt args sec rib_schema) None bs
        \<longleftrightarrow> bs = map (\<lambda>rows. \<lparr>rb_schema = rib_schema, rb_columns = rib_columns rows\<rparr>) groups)
      \<and> concat groups = concat cs \<and> [] \<notin> set groups)
    \<and> (\<exists>groups. (\<forall>bs. responses rt (read_updates_producer rt args sec updates_schema) None bs
        \<longleftrightarrow> bs = map (\<lambda>rows. \<lparr>rb_schema = updates_schema, rb_columns = updates_columns rows\<rparr>) groups)
      \<and> concat groups = concat cs \<and> [] \<notin> set groups)"
proof -
  have "0 < batch_rows (rt_world rt)"
    by (rule batch_rows_positive)
  note drain = http_drain_new [OF assms(1) this assms(5-7)]
  have call: "\<exists>groups. (\<forall>bs. responses rt (reader_producer rt k args sec (table_schema k)) None bs
      \<longleftrightarrow> bs = map (table_batch k) groups) \<and> concat groups = concat cs \<and> [] \<notin> set groups" for k
  proof -
    obtain groups where g: "drains http_pull (rt, batch_rows (rt_world rt),
        producer_new (rt_kit rt) (table_schema k) k (strict_option args) srcs, None) groups None"
      "concat cs = concat groups" "[] \<notin> set groups"
      using drain [of "table_schema k" k] by auto
    have "reader_producer rt k args sec (table_schema k)
        = Inr (producer_new (rt_kit rt) (table_schema k) k (strict_option args) srcs)"
      using assms(3,4) by (simp add: reader_producer_def)
    with drained_responses [OF g(1) refl refl assms(1,2)] responses_det g(2,3) show ?thesis by metis
  qed
  from call [of Rib] call [of Updates] show ?thesis
    by (simp add: table_batch_def table_schema_def read_rib_producer_def read_updates_producer_def cong: map_cong)
qed

theorem http_call_returns_scan_witness:
  "\<exists>groups. responses toy_rt (read_rib_producer toy_rt (blob_args [1, 2, 3]) no_secrets rib_schema) None
       (map (\<lambda>rows. \<lparr>rb_schema = rib_schema, rb_columns = rib_columns rows\<rparr>) groups)
     \<and> concat groups = [toy_row 1, toy_row 2, toy_row 3]"
proof -
  have run: "scan_run toy_rt (strict_option (blob_args [1, 2, 3])) [BytesSource [1, 2, 3]] None
      (map (\<lambda>b. [toy_row b]) [1, 2, 3]) None"
    by (rule toy_scan_run) (simp_all add: good_bytes_def)
  have safe: "resume_safe toy_rt (strict_option (blob_args [1, 2, 3])) [BytesSource [1, 2, 3]]"
    by (rule toy_resume_safe) (simp_all add: good_bytes_def)
  have "source (blob_args [1, 2, 3]) 0 = Inr (Bytes [1, 2, 3])"
    by (simp add: source_def blob_args_def)
  from http_call_returns_scan [OF _ _ this _ _ safe run, of no_secrets] show ?thesis
    by (auto simp: toy_progress arrow_try_new_accepts)
qed

end
