(* ===== verification/Chunking.thy ===== *)
theory Chunking
  imports Toy_Source
begin

text \<open>
  What a scan reads is the decompressed bytes, not how they arrive. A stream is given to the decoder of
  \<open>bgp-core/src/decode.rs\<close> by reads of any size: a file, an object in memory, or the output of a
  decompressor.

  \<^item> \<open>steady_reader\<close> extends the contract of \<open>Read\<close>: on the steady states no read fails, and a read of at
    least one byte is empty only at the end.
  \<^item> \<open>byte_determined\<close> says of a reading program that its result depends on the bytes alone; it is what
    the documentation of \<open>read_exact\<close> promises for code that reads through it, proved below.
  \<^item> With such a record parser what the next record of an open source is depends on its bytes
    (\<open>next_record_bytes\<close>); \<open>opened_delivery\<close> says how a source is opened by its first bytes.
  \<^item> \<open>plain_dump_sniffed\<close> says which uncompressed dumps are taken for archives.
\<close>

subsection \<open>Readers that only end\<close>

locale steady_reader = byte_reader rd bytes
  for rd :: "'r read_fn" and bytes :: "'r \<Rightarrow> u8 list" +
  fixes steady :: "'r \<Rightarrow> bool"
  assumes steady_read: "steady r \<Longrightarrow> rd n r = (ans, r') \<Longrightarrow>
    steady r' \<and> (\<exists>bs. ans = Inr bs \<and> (0 < n \<longrightarrow> bs = [] \<longrightarrow> bytes r = []))"
begin

lemma steady_ans:
  assumes "steady r" "rd n r = (ans, r')"
  obtains bs where "ans = Inr bs" "steady r'" "bytes r = bs @ bytes r'" "length bs \<le> n"
    "0 < n \<Longrightarrow> bs = [] \<Longrightarrow> bytes r = []"
  using steady_read [OF assms] read_ok [of n r _ r'] assms(2) by blast

text \<open>What a program sees on a steady reader it also sees on a script of the same bytes.\<close>

lemma run_script:
  "run rd p r = (a, r') \<Longrightarrow> steady r \<Longrightarrow>
     steady r' \<and> (\<exists>s s'. live s \<and> script_bytes s = bytes r \<and> run script_read p s = (a, s')
       \<and> script_bytes s' = bytes r')"
proof (induction p arbitrary: r)
  case (Ret x)
  have "live (cursor (bytes r)) \<and> script_bytes (cursor (bytes r)) = bytes r"
    by (simp add: live_def cursor_def)
  with Ret show ?case by auto
next
  case (Rd n k)
  obtain ans r1 where 1: "rd n r = (ans, r1)" by fastforce
  from steady_ans [OF Rd.prems(2) 1] obtain bs where
    bs: "ans = Inr bs" "steady r1" "bytes r = bs @ bytes r1" "length bs \<le> n"
      "0 < n \<Longrightarrow> bs = [] \<Longrightarrow> bytes r = []" by metis
  have "run rd (k ans) r1 = (a, r')" using Rd.prems(1) 1 by simp
  from Rd.IH [OF _ this bs(2)] obtain s s' where
    s: "steady r'" "live s" "script_bytes s = bytes r1" "run script_read (k ans) s = (a, s')"
      "script_bytes s' = bytes r'" by auto
  show ?case
  proof (cases "bs = []")
    case False
    with s bs(1,3,4) have "live (Chunk bs # s)" "script_bytes (Chunk bs # s) = bytes r"
      "run script_read (Rd n k) (Chunk bs # s) = (a, s')"
      by (auto simp: live_def)
    with s show ?thesis by blast
  next
    case True
    have "script_read n s = (Inr [], s)"
    proof (cases "n = 0")
      case True
      with s(2) show ?thesis by (cases "(n, s)" rule: script_read.cases) (auto simp: live_def)
    next
      case False
      with bs(3,5) True s(2,3) have "s = []"
        by (cases s; cases "hd s") (auto simp: live_def)
      then show ?thesis by simp
    qed
    with True bs(1) s(4) have "run script_read (Rd n k) s = (a, s')" by simp
    with s bs(3) True show ?thesis by auto
  qed
qed

text \<open>Buffering and counting keep a reader steady.\<close>

lemma buffered_is_steady: "steady_reader (buf_read rd) (buffered_bytes bytes) (\<lambda>br. steady (br_inner br))"
proof (intro steady_reader.intro steady_reader_axioms.intro buffered_is_reader)
  fix br :: "'r buf_reader" and n ans br'
  assume st: "steady (br_inner br)" and 1: "buf_read rd n br = (ans, br')"
  show "steady (br_inner br') \<and> (\<exists>bs. ans = Inr bs \<and> (0 < n \<longrightarrow> bs = [] \<longrightarrow> buffered_bytes bytes br = []))"
  proof (cases "br_buf br = []")
    case False
    with st 1 show ?thesis by (auto simp: buf_read_def fill_buf_def)
  next
    case empty: True
    define m where "m = (if buf_capacity \<le> n then n else buf_capacity)"
    then have "0 < m" by (auto simp: buf_capacity_def)
    obtain out r1 where 2: "rd m (br_inner br) = (out, r1)" by fastforce
    from steady_ans [OF st 2] \<open>0 < m\<close> obtain bs where
      "out = Inr bs" "steady r1" "bs = [] \<Longrightarrow> bytes (br_inner br) = []" by metis
    with 1 2 empty m_def show ?thesis
      by (cases "buf_capacity \<le> n") (auto simp: buf_read_def fill_buf_def buffered_bytes_def)
  qed
qed

lemma counting_is_steady:
  "steady_reader (counting_read rd) (counted_bytes bytes) (\<lambda>cr. steady (inner cr))"
proof (intro steady_reader.intro steady_reader_axioms.intro counting_is_reader)
  fix cr :: "'r counting_reader" and n ans cr'
  assume st: "steady (inner cr)" and 1: "counting_read rd n cr = (ans, cr')"
  obtain out r1 where 2: "rd n (inner cr) = (out, r1)" by fastforce
  from steady_ans [OF st 2] obtain bs where "out = Inr bs" "steady r1"
    "bs = [] \<Longrightarrow> 0 < n \<Longrightarrow> bytes (inner cr) = []" by metis
  with 1 2 show "steady (inner cr') \<and> (\<exists>bs. ans = Inr bs \<and> (0 < n \<longrightarrow> bs = [] \<longrightarrow> counted_bytes bytes cr = []))"
    by (auto simp: counting_read_def counted_bytes_def)
qed

end

subsection \<open>The readers of the program are steady\<close>

interpretation steady_script: steady_reader script_read script_bytes live
proof
  fix r :: script and n ans r'
  assume "live r" "script_read n r = (ans, r')"
  then show "live r' \<and> (\<exists>bs. ans = Inr bs \<and> (0 < n \<longrightarrow> bs = [] \<longrightarrow> script_bytes r = []))"
    by (cases "(n, r)" rule: script_read.cases) (auto simp: live_def)
qed

interpretation steady_buffered_script: steady_reader "buf_read script_read" "buffered_bytes script_bytes"
    "\<lambda>br. live (br_inner br)"
  by (rule steady_script.buffered_is_steady)

fun dyn_live :: "dyn_reader \<Rightarrow> bool" where
  "dyn_live (PlainReader br) \<longleftrightarrow> live (br_inner br)"
| "dyn_live (DecoderReader s) \<longleftrightarrow> live s"

interpretation steady_dyn: steady_reader dyn_read dyn_bytes dyn_live
proof
  fix r :: dyn_reader and n ans r'
  assume "dyn_live r" "dyn_read n r = (ans, r')"
  then show "dyn_live r' \<and> (\<exists>bs. ans = Inr bs \<and> (0 < n \<longrightarrow> bs = [] \<longrightarrow> dyn_bytes r = []))"
    by (cases r)
      (auto split: prod.splits dest: steady_buffered_script.steady_read steady_script.steady_read)
qed

interpretation steady_stream: steady_reader stream_read stream_bytes "\<lambda>r. dyn_live (inner r)"
  by (rule steady_dyn.counting_is_steady)

subsection \<open>Programs that depend on bytes alone\<close>

definition byte_determined :: "'a rprog \<Rightarrow> bool" where
  "byte_determined p \<longleftrightarrow>
     (\<forall>s t a s' b t'. live s \<longrightarrow> live t \<longrightarrow> script_bytes s = script_bytes t \<longrightarrow>
        run script_read p s = (a, s') \<longrightarrow> run script_read p t = (b, t') \<longrightarrow>
        a = b \<and> script_bytes s' = script_bytes t')"

lemma determined_run:
  assumes "byte_determined p" "run stream_read p r1 = (a, r1')" "run stream_read p r2 = (b, r2')"
    and "dyn_live (inner r1)" "dyn_live (inner r2)" "stream_bytes r1 = stream_bytes r2" "stream_pos r1 = stream_pos r2"
  shows "a = b \<and> dyn_live (inner r1') \<and> dyn_live (inner r2') \<and> stream_bytes r1' = stream_bytes r2'
    \<and> stream_pos r1' = stream_pos r2'"
proof -
  from steady_stream.run_script [OF assms(2,4)] obtain s s' where 1: "dyn_live (inner r1')" "live s"
    "script_bytes s = stream_bytes r1" "run script_read p s = (a, s')" "script_bytes s' = stream_bytes r1'" by auto
  from steady_stream.run_script [OF assms(3,5)] obtain t t' where 2: "dyn_live (inner r2')" "live t"
    "script_bytes t = stream_bytes r2" "run script_read p t = (b, t')" "script_bytes t' = stream_bytes r2'" by auto
  have "a = b \<and> script_bytes s' = script_bytes t'"
    using assms(1,6) 1(2-4) 2(2-4) unfolding byte_determined_def by metis
  then have "a = b" "stream_bytes r1' = stream_bytes r2'" using 1(5) 2(5) by simp_all
  moreover from this have "stream_pos r1' = stream_pos r2'"
    using dyn.run_counting [OF assms(2)] dyn.run_counting [OF assms(3)] assms(6,7)
    by (simp add: counted_bytes_def)
  ultimately show ?thesis using 1(1) 2(1) by simp
qed

text \<open>
  \<open>read_exact\<close> of the standard library: read until the buffer is full; the end of the stream before
  that is an error.
\<close>

definition failed_to_fill :: io_error where
  "failed_to_fill = IoErr UnexpectedEof ''failed to fill whole buffer''"

function read_exact :: "nat \<Rightarrow> u8 list \<Rightarrow> (io_answer \<Rightarrow> 'a rprog) \<Rightarrow> 'a rprog" where
  "read_exact n acc k =
     (if n = 0 then k (Inr acc)
      else Rd n (\<lambda>ans. case ans of
             Inl e \<Rightarrow> k (Inl e)
           | Inr bs \<Rightarrow> if bs = [] then k (Inl failed_to_fill) else read_exact (n - length bs) (acc @ bs) k))"
  by pat_completeness auto
termination by (relation "measure (\<lambda>(n, acc, k). n)") auto

declare read_exact.simps [simp del]

lemma run_read_exact:
  "live s \<Longrightarrow> \<exists>s'. live s' \<and>
     (if n \<le> length (script_bytes s)
      then script_bytes s' = drop n (script_bytes s)
        \<and> run script_read (read_exact n acc k) s = run script_read (k (Inr (acc @ take n (script_bytes s)))) s'
      else script_bytes s' = [] \<and> run script_read (read_exact n acc k) s = run script_read (k (Inl failed_to_fill)) s')"
proof (induction n arbitrary: s acc rule: less_induct)
  case (less n)
  show ?case
  proof (cases "n = 0")
    case True
    with less.prems show ?thesis by (auto simp: read_exact.simps [of 0])
  next
    case False
    obtain ans s1 where 1: "script_read n s = (ans, s1)" by fastforce
    from steady_script.steady_ans [OF less.prems 1] False obtain bs where
      bs: "ans = Inr bs" "live s1" "script_bytes s = bs @ script_bytes s1" "length bs \<le> n"
        "bs = [] \<Longrightarrow> script_bytes s = []" by blast
    have step: "run script_read (read_exact n acc k) s
        = run script_read (if bs = [] then k (Inl failed_to_fill) else read_exact (n - length bs) (acc @ bs) k) s1"
      using False 1 bs(1) by (simp add: read_exact.simps [of n])
    show ?thesis
    proof (cases "bs = []")
      case True
      with bs step False show ?thesis by (intro exI [of _ s1]) simp
    next
      case nonempty: False
      with False bs(4) have "n - length bs < n" by simp
      from less.IH [OF this bs(2), of "acc @ bs"] nonempty bs(3,4) step show ?thesis
        by (auto split: if_splits)
    qed
  qed
qed

lemma read_exact_determined:
  assumes "\<And>ans. byte_determined (k ans)"
  shows "byte_determined (read_exact n acc k)"
  unfolding byte_determined_def
proof (intro allI impI)
  fix s t a s' b t'
  assume st: "live s" "live t" "script_bytes s = script_bytes t"
    and runs: "run script_read (read_exact n acc k) s = (a, s')" "run script_read (read_exact n acc k) t = (b, t')"
  from run_read_exact [OF st(1), of n acc k] run_read_exact [OF st(2), of n acc k] runs st(3)
  obtain ans s1 t1 where "live s1" "live t1" "script_bytes s1 = script_bytes t1"
    "run script_read (k ans) s1 = (a, s')" "run script_read (k ans) t1 = (b, t')"
    by (auto split: if_splits)
  with assms [of ans] show "a = b \<and> script_bytes s' = script_bytes t'"
    unfolding byte_determined_def by blast
qed

lemma Ret_determined: "byte_determined (Ret a)"
  by (simp add: byte_determined_def)

subsection \<open>Records depend on bytes alone\<close>

definition same_stream :: "stream \<Rightarrow> stream \<Rightarrow> bool" where
  "same_stream r1 r2 \<longleftrightarrow> dyn_live (inner r1) \<and> dyn_live (inner r2)
     \<and> stream_bytes r1 = stream_bytes r2 \<and> stream_pos r1 = stream_pos r2"

lemma same_stream_sym: "same_stream r1 r2 \<Longrightarrow> same_stream r2 r1"
  by (simp add: same_stream_def)

lemma next_record_bytes:
  assumes "byte_determined (parse_mrt_record kit)" "same_stream r1 r2"
    and "next_record kit stream_read r1 = (res, r1')"
  obtains r2' where "next_record kit stream_read r2 = (res, r2')" "same_stream r1' r2'"
    "stream_pos r2' = stream_pos r1'"
proof -
  obtain a where 1: "run stream_read (parse_mrt_record kit) r1 = (a, r1')"
    "res = (case a of Inr rec \<Rightarrow> Inr (Some rec) | Inl e \<Rightarrow> if is_clean_eof e then Inr None else Inl e)"
    using assms(3) by (auto simp: next_record_def split: prod.splits sum.splits)
  obtain b r2' where 2: "run stream_read (parse_mrt_record kit) r2 = (b, r2')" by fastforce
  from determined_run [OF assms(1) 1(1) 2] assms(2) have *: "a = b" "same_stream r1' r2'"
    by (simp_all add: same_stream_def)
  then have "next_record kit stream_read r2 = (res, r2')"
    unfolding next_record_def 2 1(2) by (cases b) simp_all
  moreover have "stream_pos r2' = stream_pos r1'" using *(2) by (simp add: same_stream_def)
  ultimately show ?thesis using *(2) by (intro that)
qed

subsection \<open>Opening what is delivered\<close>

text \<open>
  What the documentation of a decoder promises for an archive: fed with exactly its bytes, it delivers
  the content, without a failing read.
\<close>

definition inflates :: "decompressor \<Rightarrow> u8 list \<Rightarrow> u8 list \<Rightarrow> bool" where
  "inflates decode archive content \<longleftrightarrow>
     (\<forall>buf. buffered_bytes script_bytes buf = archive \<longrightarrow> live (br_inner buf) \<longrightarrow>
        live (decode buf) \<and> script_bytes (decode buf) = content)"

text \<open>
  A source whose bytes arrive without a failing read, the first read giving the three bytes the
  sniffer looks at, or all there are; a \<open>Cursor\<close> does so, and a \<open>File\<close> that is read without an error.
\<close>

definition delivers_bytes :: "'s world \<Rightarrow> 's byte_source \<Rightarrow> u8 list \<Rightarrow> bool" where
  "delivers_bytes w s bs \<longleftrightarrow>
     (\<exists>raw. open_source w s = Inr raw \<and> live raw \<and> script_bytes raw = bs
        \<and> (case raw of Chunk c # rest \<Rightarrow> 3 \<le> length c \<or> rest = [] | _ \<Rightarrow> True))"

lemma memory_delivers: "delivers_bytes w (BytesSource bs) bs"
  by (simp add: delivers_bytes_def cursor_def live_def)

lemma opened_delivery:
  assumes "delivers_bytes w s bs"
  obtains buf where "buffered_bytes script_bytes buf = bs" "live (br_inner buf)"
    "open_stream w s = Inr (counting_new
       (if starts_with bs gzip_magic then DecoderReader (gz_decoder w buf)
        else if starts_with bs bzip2_magic then DecoderReader (bz_decoder w buf)
        else PlainReader buf))"
proof -
  from assms obtain raw where raw: "open_source w s = Inr raw" "live raw" "script_bytes raw = bs"
    "case raw of Chunk c # rest \<Rightarrow> 3 \<le> length c \<or> rest = [] | _ \<Rightarrow> True" by (auto simp: delivers_bytes_def)
  obtain got rest where fill: "fill_buf script_read (buf_new raw) = (Inr got, \<lparr>br_buf = got, br_inner = rest\<rparr>)"
    "live rest" "bs = got @ script_bytes rest" "3 \<le> length got \<or> script_bytes rest = []"
  proof (cases raw)
    case Nil
    with raw(3) that [of "[]" "[]"] show thesis by (simp add: fill_buf_new live_def)
  next
    case (Cons ev more)
    with raw(2) obtain c where c: "raw = Chunk c # more" "c \<noteq> []" "live more"
      by (cases ev) (auto simp: live_def)
    let ?rest = "if length c \<le> buf_capacity then more else Chunk (drop buf_capacity c) # more"
    have "live ?rest" using c by (auto simp: live_def)
    moreover have "bs = take buf_capacity c @ script_bytes ?rest" using raw(3) c(1) by auto
    moreover have big: "3 \<le> length (take buf_capacity c) \<or> script_bytes ?rest = []"
    proof (cases "3 \<le> length c")
      case True
      then show ?thesis by (simp add: buf_capacity_def)
    next
      case False
      with raw(4) c(1) show ?thesis by (simp add: buf_capacity_def)
    qed
    have "fill_buf script_read (buf_new raw) = (Inr (take buf_capacity c), \<lparr>br_buf = take buf_capacity c, br_inner = ?rest\<rparr>)"
      using c(1) by (simp add: fill_buf_new)
    from that [OF this] calculation big show thesis by blast
  qed
  have magic: "starts_with got m \<longleftrightarrow> starts_with bs m" if "length m \<le> 3" for m :: "u8 list"
    using fill(3,4) that by (auto simp: starts_with_def)
  show thesis
  proof (rule that)
    show "buffered_bytes script_bytes \<lparr>br_buf = got, br_inner = rest\<rparr> = bs" using fill(3) by (simp add: buffered_bytes_def)
    show "live (br_inner \<lparr>br_buf = got, br_inner = rest\<rparr>)" using fill(2) by simp
    show "open_stream w s = Inr (counting_new
       (if starts_with bs gzip_magic then DecoderReader (gz_decoder w \<lparr>br_buf = got, br_inner = rest\<rparr>)
        else if starts_with bs bzip2_magic then DecoderReader (bz_decoder w \<lparr>br_buf = got, br_inner = rest\<rparr>)
        else PlainReader \<lparr>br_buf = got, br_inner = rest\<rparr>))"
      using raw(1) fill(1) magic [of gzip_magic] magic [of bzip2_magic]
      by (simp add: open_stream_def decompress_reader_def gzip_magic_def bzip2_magic_def)
  qed
qed

subsection \<open>Dumps that look compressed\<close>

text \<open>An MRT dump begins with the big-endian timestamp of its first record.\<close>

lemma be_bytes_u32:
  "to_be_bytes 4 (ts :: u32) = [ucast (drop_bit 24 ts), ucast (drop_bit 16 ts), ucast (drop_bit 8 ts), ucast ts]"
  by (simp add: to_be_bytes_def to_le_bytes_def upt_rec)

lemma byte_at: "(ucast (drop_bit k ts) :: u8) = of_nat b \<longleftrightarrow> unat ts div 2 ^ k mod 256 = b mod 256" for ts :: u32
  by (simp add: word_unat_eq_iff unsigned_ucast_eq unat_drop_bit take_bit_eq_mod unat_of_nat)

lemma byte_digits: "r < 256 \<Longrightarrow> y div 256 = q \<and> y mod 256 = r \<longleftrightarrow> y = q * 256 + r" for y :: nat
  using div_mult_mod_eq [of y 256] by auto

lemma magic_window:
  fixes ts :: u32
  shows "starts_with (to_be_bytes 4 ts @ rest) gzip_magic \<longleftrightarrow> 0x1F8B0000 \<le> ts \<and> ts \<le> 0x1F8BFFFF"
    "starts_with (to_be_bytes 4 ts @ rest) bzip2_magic \<longleftrightarrow> 0x425A6800 \<le> ts \<and> ts \<le> 0x425A68FF"
proof -
  define x where "x = unat ts"
  have x: "x < 2 ^ 32" using unsigned_less [of ts] by (simp add: x_def)
  have split: "x div 2 ^ 24 = x div 2 ^ 8 div 2 ^ 8 div 2 ^ 8" "x div 2 ^ 16 = x div 2 ^ 8 div 2 ^ 8"
    by (simp_all flip: div_mult2_eq)
  have le: "0x1F8B0000 \<le> ts \<longleftrightarrow> 0x1F8B0000 \<le> x" "ts \<le> 0x1F8BFFFF \<longleftrightarrow> x \<le> 0x1F8BFFFF"
    "0x425A6800 \<le> ts \<longleftrightarrow> 0x425A6800 \<le> x" "ts \<le> 0x425A68FF \<longleftrightarrow> x \<le> 0x425A68FF"
    by (simp_all add: word_le_nat_alt x_def)
  have "starts_with (to_be_bytes 4 ts @ rest) gzip_magic \<longleftrightarrow> x div 2 ^ 24 mod 256 = 0x1F \<and> x div 2 ^ 16 mod 256 = 0x8B"
    using byte_at [of 24 ts "0x1F"] byte_at [of 16 ts "0x8B"]
    by (simp add: starts_with_def gzip_magic_def be_bytes_u32 x_def)
  also have "\<dots> \<longleftrightarrow> x div 2 ^ 16 = 0x1F8B"
    using x byte_digits [of "0x8B" "x div 2 ^ 16" "0x1F"] unfolding split by simp
  also have "\<dots> \<longleftrightarrow> 0x1F8B0000 \<le> x \<and> x \<le> 0x1F8BFFFF" by auto
  finally show "starts_with (to_be_bytes 4 ts @ rest) gzip_magic \<longleftrightarrow> 0x1F8B0000 \<le> ts \<and> ts \<le> 0x1F8BFFFF"
    by (simp add: le)
  have "starts_with (to_be_bytes 4 ts @ rest) bzip2_magic
      \<longleftrightarrow> x div 2 ^ 24 mod 256 = 0x42 \<and> x div 2 ^ 16 mod 256 = 0x5A \<and> x div 2 ^ 8 mod 256 = 0x68"
    using byte_at [of 24 ts "0x42"] byte_at [of 16 ts "0x5A"] byte_at [of 8 ts "0x68"]
    by (simp add: starts_with_def bzip2_magic_def be_bytes_u32 x_def)
  also have "\<dots> \<longleftrightarrow> x div 2 ^ 8 = 0x425A68"
    using x byte_digits [of "0x5A" "x div 2 ^ 16" "0x42"] byte_digits [of "0x68" "x div 2 ^ 8" "0x425A"]
    unfolding split by auto
  also have "\<dots> \<longleftrightarrow> 0x425A6800 \<le> x \<and> x \<le> 0x425A68FF" by auto
  finally show "starts_with (to_be_bytes 4 ts @ rest) bzip2_magic \<longleftrightarrow> 0x425A6800 \<le> ts \<and> ts \<le> 0x425A68FF"
    by (simp add: le)
qed

subsection \<open>The toy parser\<close>

lemma toy_parse_mrt: "parse_mrt_record toy_kit = toy_parse"
  by (simp add: toy_kit_def)

lemma toy_determined: "byte_determined toy_parse"
  unfolding byte_determined_def
proof (intro allI impI)
  fix s t a s' b t'
  assume "live s" "live t" "script_bytes s = script_bytes t"
    and runs: "run script_read toy_parse s = (a, s')" "run script_read toy_parse t = (b, t')"
  moreover have "\<exists>s'. run script_read toy_parse s
      = (case script_bytes s of [] \<Rightarrow> Inl EofExpected | b # _ \<Rightarrow> toy_parse_byte b, s')
      \<and> script_bytes s' = drop 1 (script_bytes s)" if "live s" for s
  proof (cases s)
    case (Cons ev rest)
    with that obtain x xs where "s = Chunk (x # xs) # rest"
      by (cases ev) (auto simp: live_def neq_Nil_conv)
    then show ?thesis by (simp add: toy_parse_def)
  qed (simp add: toy_parse_def)
  ultimately show "a = b \<and> script_bytes s' = script_bytes t'" by (metis prod.inject)
qed

subsection \<open>Properties\<close>

text \<open>
  C30: sniffing by content mistakes old dumps: an uncompressed dump in memory is read as it is unless
  its first record has a timestamp whose bytes are a magic number; those of 11 April 2005 from
  12:05:20 to 12:09:35 UTC begin with \<open>BZh\<close> and are handed to the bzip2 decoder (those of 9 October
  1986, before the format existed, to the gzip decoder).
\<close>

theorem plain_dump_sniffed:
  fixes ts :: u32
  shows "\<exists>buf. buffered_bytes script_bytes buf = to_be_bytes 4 ts @ rest
    \<and> open_stream w (BytesSource (to_be_bytes 4 ts @ rest)) = Inr (counting_new
        (if 0x1F8B0000 \<le> ts \<and> ts \<le> 0x1F8BFFFF then DecoderReader (gz_decoder w buf)
         else if 0x425A6800 \<le> ts \<and> ts \<le> 0x425A68FF then DecoderReader (bz_decoder w buf)
         else PlainReader buf))"
  by (rule opened_delivery [OF memory_delivers, of "to_be_bytes 4 ts @ rest" w]) (auto simp: magic_window)

end
