(* ===== verification/Compressed_Scans.thy ===== *)
theory Compressed_Scans
  imports Chunking Resume_Properties
begin

text \<open>
  Compressed sources are scanned like what they expand to. \<open>alike\<close> says that opening two sources, in two
  worlds, gives the same bytes however they are cut into reads; \<open>twin\<close> producers differ only in such
  sources and readers. The lemmas show that twins stay twins through every pull and restore, and that
  an archive and its content are alike.
\<close>

subsection \<open>Producers over the same bytes\<close>

text \<open>The same stream, whatever it does, or two that deliver the same bytes without a failing read.\<close>

definition like_stream :: "stream \<Rightarrow> stream \<Rightarrow> bool" where
  "like_stream r1 r2 \<longleftrightarrow> r1 = r2 \<or> same_stream r1 r2"

lemma like_stream_sym: "like_stream r1 r2 \<Longrightarrow> like_stream r2 r1"
  by (auto simp: like_stream_def same_stream_def)

definition alike :: "'s world \<Rightarrow> 's world \<Rightarrow> 's byte_source \<Rightarrow> 's byte_source \<Rightarrow> bool" where
  "alike w w' s t \<longleftrightarrow> label s = label t \<and> rel_sum (=) like_stream (open_stream w s) (open_stream w' t)"

definition twin :: "('s, 'x, 'e) rt \<Rightarrow> ('s, 'x, 'e) rt \<Rightarrow> ('s, 'e) producer \<Rightarrow> ('s, 'e) producer \<Rightarrow> bool" where
  "twin rt rt' p q \<longleftrightarrow>
     idx q = idx p \<and> offset q = offset p \<and> skip_to q = skip_to p \<and> strict q = strict p
     \<and> decoder q = decoder p \<and> done_flag q = done_flag p
     \<and> rel_option like_stream (reader p) (reader q)
     \<and> list_all2 (alike (rt_world rt) (rt_world rt')) (sources p) (sources q)"

lemma alike_sym: "alike w w' s t \<Longrightarrow> alike w' w t s"
  unfolding alike_def
  by (cases "open_stream w s"; cases "open_stream w' t") (auto intro: like_stream_sym)

lemma twin_sym: "twin rt rt' p q \<Longrightarrow> twin rt' rt q p"
  by (cases "reader p"; cases "reader q")
    (auto simp: twin_def list_all2_conv_all_nth alike_sym intro: like_stream_sym)

lemma twin_simps:
  assumes "twin rt rt' p q"
  shows "idx q = idx p" "offset q = offset p" "skip_to q = skip_to p" "strict q = strict p" "decoder q = decoder p"
    "done_flag q = done_flag p" "length (sources q) = length (sources p)" "reader q = None \<longleftrightarrow> reader p = None"
    "producer_ok q \<longleftrightarrow> producer_ok p"
  using assms by (auto simp: twin_def producer_ok_def list_all2_lengthD)

lemma next_record_twin:
  assumes "byte_determined (parse_mrt_record kit)" "like_stream r1 r2"
  obtains res r1' r2' where "next_record kit stream_read r1 = (res, r1')" "next_record kit stream_read r2 = (res, r2')"
    "like_stream r1' r2'" "stream_pos r2' = stream_pos r1'"
proof -
  obtain res r1' where 1: "next_record kit stream_read r1 = (res, r1')" by fastforce
  show thesis
  proof (cases "r1 = r2")
    case True
    with 1 that show thesis by (auto simp: like_stream_def)
  next
    case False
    with assms(2) have "same_stream r1 r2" by (simp add: like_stream_def)
    then obtain r2' where "next_record kit stream_read r2 = (res, r2')" "same_stream r1' r2'"
      "stream_pos r2' = stream_pos r1'"
      by (rule next_record_bytes [OF assms(1) _ 1])
    with 1 that show thesis by (auto simp: like_stream_def)
  qed
qed

lemma twin_read_step:
  assumes "byte_determined (parse_mrt_record (rt_kit rt))" "rt_kit rt' = rt_kit rt" "twin rt rt' p q"
    "like_stream r r'" "idx p < length (sources p)"
  shows "rel_step (twin rt rt') (read_step rt p r) (read_step rt' q r')"
proof -
  from assms(3,5) have lbl: "label (sources q ! idx p) = label (sources p ! idx p)"
    by (auto simp: twin_def list_all2_conv_all_nth alike_def)
  obtain res s s' where n: "next_record (rt_kit rt) stream_read r = (res, s)"
    "next_record (rt_kit rt) stream_read r' = (res, s')" "like_stream s s'" "stream_pos s' = stream_pos s"
    by (rule next_record_twin [OF assms(1,4)])
  have "err_text rt' = err_text rt" using assms(2) by (intro ext) (simp add: err_text_def)
  with n lbl assms(2,3) show ?thesis
    by (cases res; cases "projr res") (auto simp: read_step_simps Let_def advance_def twin_def)
qed

lemma twin_loop_step:
  assumes "byte_determined (parse_mrt_record (rt_kit rt))" "rt_kit rt' = rt_kit rt" "twin rt rt' p q" "producer_ok p"
  shows "rel_step (twin rt rt') (loop_step rt p) (loop_step rt' q)"
proof -
  note same = twin_simps [OF assms(3)]
  show ?thesis
  proof (cases "reader p")
    case (Some r1)
    with assms(3) obtain r2 where "reader q = Some r2" "like_stream r1 r2"
      by (cases "reader q") (auto simp: twin_def)
    with Some assms twin_read_step [OF assms(1-3)] show ?thesis
      by (auto simp: loop_step_def producer_ok_def)
  next
    case None
    with same have none: "reader q = None" by simp
    show ?thesis
    proof (cases "idx p < length (sources p)")
      case False
      with None none same assms(3) show ?thesis by (simp add: loop_step_def twin_def)
    next
      case True
      with assms(3) have open2: "rel_sum (=) like_stream (open_stream (rt_world rt) (sources p ! idx p))
          (open_stream (rt_world rt') (sources q ! idx p))"
        by (auto simp: twin_def list_all2_conv_all_nth alike_def)
      show ?thesis
      proof (cases "open_stream (rt_world rt) (sources p ! idx p)")
        case (Inl e)
        with open2 None none True assms(3) same show ?thesis
          by (cases "open_stream (rt_world rt') (sources q ! idx p)") (auto simp: loop_step_def open_current_def)
      next
        case (Inr r1)
        with open2 obtain r2 where r2: "open_stream (rt_world rt') (sources q ! idx p) = Inr r2" "like_stream r1 r2"
          by (cases "open_stream (rt_world rt') (sources q ! idx p)") auto
        let ?o = "\<lambda>p r. p\<lparr>reader := Some r, decoder := decoder_new (rt_kit rt), offset := 0\<rparr>"
        have "twin rt rt' (?o p r1) (?o q r2)"
          using assms(3) r2(2) by (simp add: twin_def)
        from twin_read_step [OF assms(1,2) this r2(2)] True Inr r2 None none same(1,7) show ?thesis
          by (simp add: loop_step_def open_current_def assms(2))
      qed
    qed
  qed
qed

lemma twin_pull_loop:
  assumes "parser_progress (rt_kit rt)" "byte_determined (parse_mrt_record (rt_kit rt))" "rt_kit rt' = rt_kit rt"
  shows "producer_ok p \<Longrightarrow> \<not> done_flag p \<Longrightarrow> twin rt rt' p q \<Longrightarrow>
    rel_option (rel_prod (=) (twin rt rt')) (pull_loop rt target p pending) (pull_loop rt' target q pending)"
proof (induction p arbitrary: q pending rule: wf_induct_rule [OF wf_loop_order])
  case (1 p)
  note next_ok = loop_step_next [OF assms(1) 1(2,3)]
    and step = twin_loop_step [OF assms(2,3) 1(4,2)]
    and unfold = pull_loop_unfold [of rt target p] pull_loop_unfold [of rt' target q]
  show ?case
  proof (cases "loop_step rt p")
    case (Abort e p')
    with step show ?thesis by (cases "loop_step rt' q") (simp_all add: unfold)
  next
    case (Finished p')
    with step show ?thesis by (cases "loop_step rt' q") (simp_all add: unfold)
  next
    case (Again p')
    with step obtain q' where "loop_step rt' q = Again q'" "twin rt rt' p' q'" by (cases "loop_step rt' q") auto
    with Again next_ok 1(1) [of p' q' pending] show ?thesis by (simp add: unfold)
  next
    case (Checked p' rows)
    with step obtain q' where "loop_step rt' q = Checked q' rows" "twin rt rt' p' q'" by (cases "loop_step rt' q") auto
    with Checked next_ok 1(1) [of p' q' "pending @ rows"] show ?thesis by (simp add: unfold)
  qed
qed

lemma twin_pull_rows:
  assumes "parser_progress (rt_kit rt)" "byte_determined (parse_mrt_record (rt_kit rt))" "rt_kit rt' = rt_kit rt"
    "producer_ok p" "twin rt rt' p q" "pull_rows rt target p = Some (out, p')"
  obtains q' where "pull_rows rt' target q = Some (out, q')" "twin rt rt' p' q'"
proof -
  have "rel_option (rel_prod (=) (twin rt rt')) (pull_rows rt target p) (pull_rows rt' target q)"
    using twin_pull_loop [OF assms(1-4) _ assms(5)] assms(5) twin_simps(6) [OF assms(5)]
    by (simp add: pull_rows_def)
  with assms(6) that show ?thesis by (auto simp: option_rel_Some1 rel_prod_sel)
qed

lemma twin_drains:
  "drains mrt_pull sp bs e \<Longrightarrow> sp = (rt, target, p) \<Longrightarrow> parser_progress (rt_kit rt) \<Longrightarrow>
    byte_determined (parse_mrt_record (rt_kit rt)) \<Longrightarrow> rt_kit rt' = rt_kit rt \<Longrightarrow> 0 < target \<Longrightarrow> producer_ok p \<Longrightarrow>
    twin rt rt' p q \<Longrightarrow> drains mrt_pull (rt', target, q) bs e"
proof (induction arbitrary: p q rule: drains.induct)
  case (drain_end sp sp')
  then obtain p' where "pull_rows rt target p = Some (Inr [], p')" by (auto simp: mrt_pull_def)
  then obtain q' where "pull_rows rt' target q = Some (Inr [], q')"
    by (rule twin_pull_rows [OF drain_end.prems(2-4,6,7)])
  then have "mrt_pull (rt', target, q) = Some (Inr [], (rt', target, q'))" by (simp add: mrt_pull_def)
  then show ?case by (rule drains.drain_end)
next
  case (drain_fail sp err sp')
  then obtain p' where "pull_rows rt target p = Some (Inl err, p')" by (auto simp: mrt_pull_def)
  then obtain q' where "pull_rows rt' target q = Some (Inl err, q')"
    by (rule twin_pull_rows [OF drain_fail.prems(2-4,6,7)])
  then have "mrt_pull (rt', target, q) = Some (Inl err, (rt', target, q'))" by (simp add: mrt_pull_def)
  then show ?case by (rule drains.drain_fail)
next
  case (drain_batch sp now sp' bs e)
  then obtain p' where p': "pull_rows rt target p = Some (Inr now, p')" "sp' = (rt, target, p')"
    by (auto simp: mrt_pull_def)
  obtain q' where q': "pull_rows rt' target q = Some (Inr now, q')" "twin rt rt' p' q'"
    by (rule twin_pull_rows [OF drain_batch.prems(2-4,6,7) p'(1)])
  have "producer_ok p'" using pull_rows_keeps [OF drain_batch.prems(2,6) p'(1) drain_batch.prems(5)] by blast
  from drain_batch.IH [OF p'(2) drain_batch.prems(2-5) this q'(2)]
  have "drains mrt_pull (rt', target, q') bs e" .
  moreover have "mrt_pull (rt', target, q) = Some (Inr now, (rt', target, q'))" using q'(1) by (simp add: mrt_pull_def)
  ultimately show ?case using drain_batch.hyps(2) by (blast intro: drains.drain_batch)
qed

lemma twin_token: "twin rt rt' p q \<Longrightarrow> encode_resume q = encode_resume p"
  by (simp add: twin_def encode_resume_def)

lemma twin_restored: "twin rt rt' p q \<Longrightarrow> twin rt rt' (http_state p token) (http_state q token)"
  by (auto simp: http_state_def restore_resume_defs twin_def Let_def dest: list_all2_lengthD split: option.split)

lemma restored_ok: "producer_ok p \<Longrightarrow> producer_ok (http_state p token)"
  by (auto simp: http_state_def restore_resume_defs producer_ok_def Let_def split: option.split)

lemma twin_responses:
  "drains http_pull sp bs e \<Longrightarrow> sp = (rt, target, p, token) \<Longrightarrow> parser_progress (rt_kit rt) \<Longrightarrow>
    byte_determined (parse_mrt_record (rt_kit rt)) \<Longrightarrow> rt_kit rt' = rt_kit rt \<Longrightarrow> producer_ok p \<Longrightarrow>
    twin rt rt' p q \<Longrightarrow> drains http_pull (rt', target, q, token) bs e"
proof (induction arbitrary: token rule: drains.induct)
  case (drain_end sp sp')
  then obtain p' where "pull_rows rt target (http_state p token) = Some (Inr [], p')" by (auto simp: http_pull_def)
  then obtain q' where "pull_rows rt' target (http_state q token) = Some (Inr [], q')"
    by (rule twin_pull_rows [OF drain_end.prems(2-4) restored_ok [OF drain_end.prems(5)] twin_restored [OF drain_end.prems(6)]])
  from http_pull_eq [OF this] show ?case by (rule drains.drain_end)
next
  case (drain_fail sp err sp')
  then obtain p' where "pull_rows rt target (http_state p token) = Some (Inl err, p')" by (auto simp: http_pull_def)
  then obtain q' where "pull_rows rt' target (http_state q token) = Some (Inl err, q')"
    by (rule twin_pull_rows [OF drain_fail.prems(2-4) restored_ok [OF drain_fail.prems(5)] twin_restored [OF drain_fail.prems(6)]])
  from http_pull_eq [OF this] show ?case by (rule drains.drain_fail)
next
  case (drain_batch sp now sp' bs e)
  then obtain p' where p': "pull_rows rt target (http_state p token) = Some (Inr now, p')"
    "sp' = (rt, target, p, Some (encode_resume p'))" by (auto simp: http_pull_def)
  obtain q' where q': "pull_rows rt' target (http_state q token) = Some (Inr now, q')" "twin rt rt' p' q'"
    by (rule twin_pull_rows [OF drain_batch.prems(2-4) restored_ok [OF drain_batch.prems(5)]
          twin_restored [OF drain_batch.prems(6)] p'(1)])
  from drain_batch.IH [OF p'(2) drain_batch.prems(2-6)] twin_token [OF q'(2)]
  have "drains http_pull (rt', target, q, Some (encode_resume q')) bs e" by simp
  with http_batch [OF q'(1) drain_batch.hyps(2)] show ?case by blast
qed

lemma twin_new:
  "list_all2 (alike (rt_world rt) (rt_world rt')) srcs srcs' \<Longrightarrow>
    twin rt rt' (producer_new kit sch k st srcs) (producer_new kit sch k st srcs')"
  by (simp add: twin_def producer_new_def)

subsection \<open>Archives\<close>

text \<open>\<open>t\<close> is, in its world, a source of the content of the archive \<open>s\<close>; it has the same label, and the
  content does not look like an archive itself.\<close>

definition expands_to :: "'s world \<Rightarrow> 's world \<Rightarrow> 's byte_source \<Rightarrow> 's byte_source \<Rightarrow> bool" where
  "expands_to w w' s t \<longleftrightarrow> label s = label t \<and>
     (\<exists>archive content decode. delivers_bytes w s archive \<and> delivers_bytes w' t content
        \<and> (decode = gz_decoder w \<and> starts_with archive gzip_magic
           \<or> decode = bz_decoder w \<and> starts_with archive bzip2_magic)
        \<and> inflates decode archive content
        \<and> \<not> starts_with content gzip_magic \<and> \<not> starts_with content bzip2_magic)"

lemma expanded_alike:
  assumes "expands_to w w' s t"
  shows "alike w w' s t"
proof -
  from assms obtain archive content decode where *: "label s = label t"
    "delivers_bytes w s archive" "delivers_bytes w' t content"
    "decode = gz_decoder w \<and> starts_with archive gzip_magic \<or> decode = bz_decoder w \<and> starts_with archive bzip2_magic"
    "inflates decode archive content" "\<not> starts_with content gzip_magic" "\<not> starts_with content bzip2_magic"
    by (auto simp: expands_to_def)
  have one: "\<not> (starts_with archive gzip_magic \<and> starts_with archive bzip2_magic)"
    by (cases archive) (auto simp: starts_with_def gzip_magic_def bzip2_magic_def)
  obtain buf where buf: "buffered_bytes script_bytes buf = archive" "live (br_inner buf)"
    "open_stream w s = Inr (counting_new (DecoderReader (decode buf)))"
    by (rule opened_delivery [OF *(2)]) (use *(4) one in auto)
  obtain buf' where buf': "buffered_bytes script_bytes buf' = content" "live (br_inner buf')"
    "open_stream w' t = Inr (counting_new (PlainReader buf'))"
    by (rule opened_delivery [OF *(3)]) (use *(6,7) in auto)
  have "same_stream (counting_new (DecoderReader (decode buf))) (counting_new (PlainReader buf'))"
    using *(5) buf(1,2) buf'(1,2) by (simp add: inflates_def same_stream_def counting_new_def counted_bytes_def)
  with buf(3) buf'(3) *(1) show ?thesis by (simp add: alike_def like_stream_def)
qed

lemma unchanged_alike: "open_stream w s = open_stream w' s \<Longrightarrow> alike w w' s s"
  by (cases "open_stream w' s") (simp_all add: alike_def like_stream_def)

subsection \<open>Properties\<close>

text \<open>
  C7: transparent decompression. Let some of the sources of a scan be gzip or bzip2 archives, local,
  remote or in memory, that arrive without a failing read (the first read giving the three bytes that
  are sniffed, or all there are), and let the scan beside it have, under the same names, the bytes
  they expand to and the other sources unchanged, whatever errors those have. Provided no such content begins with a magic number
  itself (unarchived, a dump whose first timestamp spells one would be taken for an archive), the two
  scans are the same: a consumer gets the same batches and the same end, in both modes, whatever the sources
  around the archives and the batch target, and also when every batch is pulled by a producer
  restored from the token of the last. It rests on the parser depending only on the bytes it is given
  and on the decoder delivering the content of the archive; how a stream is cut into reads does not
  matter.
\<close>

theorem compressed_scan:
  assumes "parser_progress (rt_kit rt)" and "byte_determined (parse_mrt_record (rt_kit rt))"
    and "rt_kit rt' = rt_kit rt" and "0 < target"
    and "list_all2 (\<lambda>s t. expands_to (rt_world rt) (rt_world rt') s t
        \<or> s = t \<and> open_stream (rt_world rt) s = open_stream (rt_world rt') t) srcs srcs'"
  shows "(drains mrt_pull (rt, target, producer_new (rt_kit rt) sch k st srcs) bs e
      \<longleftrightarrow> drains mrt_pull (rt', target, producer_new (rt_kit rt) sch k st srcs') bs e)
    \<and> (drains http_pull (rt, target, producer_new (rt_kit rt) sch k st srcs, None) bs e
      \<longleftrightarrow> drains http_pull (rt', target, producer_new (rt_kit rt) sch k st srcs', None) bs e)"
proof -
  have "list_all2 (alike (rt_world rt) (rt_world rt')) srcs srcs'"
    using assms(5) by (rule list_all2_mono) (auto intro: expanded_alike unchanged_alike)
  from twin_new [OF this] have twin: "twin rt rt' (producer_new (rt_kit rt) sch k st srcs) (producer_new (rt_kit rt) sch k st srcs')" .
  have conv: "parser_progress (rt_kit rt')" "byte_determined (parse_mrt_record (rt_kit rt'))" "rt_kit rt = rt_kit rt'"
    using assms(1-3) by simp_all
  show ?thesis
    using twin_drains [OF _ refl assms(1-4) producer_new_ok twin]
      twin_drains [OF _ refl conv assms(4) producer_new_ok twin_sym [OF twin]]
      twin_responses [OF _ refl assms(1-3) producer_new_ok twin]
      twin_responses [OF _ refl conv producer_new_ok twin_sym [OF twin]] by blast
qed

text \<open>A decoder of archives that are the magic bytes followed by the content.\<close>

definition stored_world :: "unit world" where
  "stored_world = sample_world\<lparr>gz_decoder := \<lambda>buf. cursor (drop 2 (buffered_bytes script_bytes buf))\<rparr>"

theorem compressed_scan_witness:
  "\<exists>bs. drains mrt_pull (toy_rt\<lparr>rt_world := stored_world\<rparr>, 2,
      producer_new toy_kit rib_schema Rib False [BytesSource [0x1f, 0x8b, 1, 2]]) bs None
    \<and> concat bs = [toy_row 1, toy_row 2]"
proof -
  let ?rt = "toy_rt\<lparr>rt_world := stored_world\<rparr>" and ?s = "BytesSource [0x1f, 0x8b, 1, 2]" and ?t = "BytesSource [1, 2]"
  have magic: "starts_with [0x1f, 0x8b, 1, 2] gzip_magic" by (simp add: starts_with_def gzip_magic_def)
  have archive: "inflates (gz_decoder stored_world) [0x1f, 0x8b, 1, 2] [1, 2]"
    by (auto simp: inflates_def stored_world_def cursor_def live_def)
  have plain: "\<not> starts_with [1, 2] gzip_magic" "\<not> starts_with [1, 2] bzip2_magic"
    by (simp_all add: starts_with_def gzip_magic_def bzip2_magic_def)
  have "expands_to (rt_world ?rt) (rt_world toy_rt) ?s ?t"
    unfolding expands_to_def
    using magic archive plain memory_delivers [of stored_world] memory_delivers [of sample_world] by auto
  then have same: "list_all2 (\<lambda>s t. expands_to (rt_world ?rt) (rt_world toy_rt) s t
      \<or> s = t \<and> open_stream (rt_world ?rt) s = open_stream (rt_world toy_rt) t) [?s] [?t]" by simp
  have "scan_run toy_rt False [?t] None (map (\<lambda>b. [toy_row b]) [1, 2]) None"
    by (rule toy_scan_run) (simp_all add: good_bytes_def)
  from drain_new [OF _ _ this, of 2 toy_kit rib_schema Rib] obtain bs where
    d: "drains mrt_pull (toy_rt, 2, producer_new toy_kit rib_schema Rib False [?t]) bs None"
    and rows: "concat bs = [toy_row 1, toy_row 2]" by (auto simp: toy_progress)
  have kit: "parser_progress (rt_kit ?rt)" "byte_determined (parse_mrt_record (rt_kit ?rt))"
    "rt_kit toy_rt = rt_kit ?rt" "0 < (2 :: nat)" by (simp_all add: toy_progress toy_determined toy_parse_mrt)
  from d have "drains mrt_pull (toy_rt, 2, producer_new (rt_kit ?rt) rib_schema Rib False [?t]) bs None" by simp
  from compressed_scan [OF kit same, THEN conjunct1, THEN iffD2, OF this] rows show ?thesis by auto
qed

end
