(* ===== verification/Record_Loops.thy ===== *)
theory Record_Loops
  imports Resume_Properties
begin

text \<open>
  The loop of \<open>pull_batch\<close> over runs of records. \<open>records_read\<close> is a run of records without an error
  between two positions of a source; \<open>at_stream\<close> and \<open>at_source\<close> are the states of a producer inside a
  source and between two. The lemmas run the loop: one pass per kind of event, records that do not
  fill the batch, records that do, and records up to the checkpoint of a resumed scan.
\<close>

subsection \<open>Reading records\<close>

inductive records_read ::
  "('x, 'e) bgpkit \<Rightarrow> stream \<Rightarrow> 'e decoder \<Rightarrow> mrt_row list list \<Rightarrow> stream \<Rightarrow> 'e decoder \<Rightarrow> bool"
  for kit :: "('x, 'e) bgpkit" where
  read_none: "records_read kit r d [] r d"
| read_one: "next_record kit stream_read r = (Inr (Some rec), r1) \<Longrightarrow>
    records_read kit r1 (snd (record_rows kit d rec)) cs r' d' \<Longrightarrow>
    records_read kit r d (fst (record_rows kit d rec) # cs) r' d'"

inductive_cases records_noneE: "records_read kit r d [] r' d'"
inductive_cases records_oneE: "records_read kit r d (c # cs) r' d'"

lemma records_counted:
  "records_read kit r d cs r' d' \<Longrightarrow> counted N r \<Longrightarrow> N < 2 ^ 64 \<Longrightarrow> counted N r' \<and> stream_pos r \<le> stream_pos r'"
proof (induction rule: records_read.induct)
  case (read_one r rec r1 d cs r' d')
  note first = next_record_counted [OF read_one.hyps(1) read_one.prems]
  from read_one.IH [OF first(1) read_one.prems(2)] order_trans [OF first(2)] show ?case by blast
qed simp

lemma records_append:
  "records_read kit r d cs r1 d1 \<Longrightarrow> records_read kit r1 d1 cs' r' d' \<Longrightarrow> records_read kit r d (cs @ cs') r' d'"
  by (induction rule: records_read.induct) (auto intro: read_one)

lemma records_run:
  "records_read (rt_kit rt) r d cs r' d' \<Longrightarrow> source_run rt st lbl r' d' None cs' e \<Longrightarrow>
     source_run rt st lbl r d None (cs @ cs') e"
  by (induction rule: records_read.induct) (auto intro: run_record simp: past_def)

subsection \<open>The loop over records\<close>

definition at_stream ::
  "('s, 'e) producer \<Rightarrow> nat \<Rightarrow> stream \<Rightarrow> 'e decoder \<Rightarrow> u64 option \<Rightarrow> ('s, 'e) producer" where
  "at_stream p i r d sk =
     p\<lparr>idx := i, reader := Some r, decoder := d, offset := stream_pos r, skip_to := sk, done_flag := False\<rparr>"

definition at_source ::
  "('s, 'e) producer \<Rightarrow> nat \<Rightarrow> 'e decoder \<Rightarrow> u64 \<Rightarrow> u64 option \<Rightarrow> ('s, 'e) producer" where
  "at_source p i d off sk =
     p\<lparr>idx := i, reader := None, decoder := d, offset := off, skip_to := sk, done_flag := False\<rparr>"

lemma at_simps [simp]:
  "reader (at_stream p i r d sk) = Some r" "idx (at_stream p i r d sk) = i"
  "offset (at_stream p i r d sk) = stream_pos r" "done_flag (at_stream p i r d sk) = False"
  "sources (at_stream p i r d sk) = sources p" "strict (at_stream p i r d sk) = strict p"
  "skip_to (at_stream p i r d sk) = sk" "decoder (at_stream p i r d sk) = d"
  "reader (at_source p i d off sk) = None" "idx (at_source p i d off sk) = i"
  "offset (at_source p i d off sk) = off" "done_flag (at_source p i d off sk) = False"
  "sources (at_source p i d off sk) = sources p" "strict (at_source p i d off sk) = strict p"
  "skip_to (at_source p i d off sk) = sk"
  by (simp_all add: at_stream_def at_source_def)

lemma step_open:
  "i < length (sources p) \<Longrightarrow> open_stream (rt_world rt) (sources p ! i) = Inr r \<Longrightarrow>
    loop_step rt (at_source p i d off sk) = loop_step rt (at_stream p i r (decoder_new (rt_kit rt)) sk)"
  by (simp add: loop_step_def open_current_Inr open_stream_start)
    (cases p; simp add: at_source_def at_stream_def open_current_def open_stream_start)

lemma step_record:
  "next_record (rt_kit rt) stream_read r = (Inr (Some rec), r') \<Longrightarrow>
    loop_step rt (at_stream p i r d sk) =
      (if past sk (stream_pos r')
       then Checked (at_stream p i r' (snd (record_rows (rt_kit rt) d rec)) None) (fst (record_rows (rt_kit rt) d rec))
       else Again (at_stream p i r' (snd (record_rows (rt_kit rt) d rec)) sk))"
  by (simp add: loop_step_def read_step_simps) (simp add: at_stream_def)

lemma step_eof:
  "next_record (rt_kit rt) stream_read r = (Inr None, r') \<Longrightarrow>
    loop_step rt (at_stream p i r d sk) = Checked (at_source p (Suc i) d (stream_pos r) None) []"
  by (simp add: loop_step_def read_step_simps) (simp add: at_stream_def at_source_def advance_def)

lemma step_torn:
  "next_record (rt_kit rt) stream_read r = (Inl err, r') \<Longrightarrow> \<not> strict p \<Longrightarrow> \<not> is_recoverable err \<Longrightarrow>
    loop_step rt (at_stream p i r d sk) = Checked (at_source p (Suc i) d (stream_pos r') None)
      (if past sk (stream_pos r') then [error_row (err_text rt (label (sources p ! i)) err)] else [])"
  by (simp add: loop_step_def read_step_simps) (simp add: at_stream_def at_source_def advance_def)

lemma step_recover:
  "next_record (rt_kit rt) stream_read r = (Inl err, r') \<Longrightarrow> \<not> strict p \<Longrightarrow> is_recoverable err \<Longrightarrow>
    loop_step rt (at_stream p i r d sk) = Checked (at_stream p i r' d None)
      (if past sk (stream_pos r') then [error_row (err_text rt (label (sources p ! i)) err)] else [])"
  by (simp add: loop_step_def read_step_simps) (simp add: at_stream_def)

lemma step_end:
  "length (sources p) \<le> i \<Longrightarrow>
    loop_step rt (at_source p i d off sk) = Finished ((at_source p i d off sk)\<lparr>done_flag := True\<rparr>)"
  by (simp add: loop_step_def)

lemma pull_open:
  "i < length (sources p) \<Longrightarrow> open_stream (rt_world rt) (sources p ! i) = Inr r \<Longrightarrow>
    pull_loop rt target (at_source p i d off sk) pending
      = pull_loop rt target (at_stream p i r (decoder_new (rt_kit rt)) sk) pending"
  by (subst (1 2) pull_loop_unfold) (simp add: step_open)

text \<open>Records whose rows do not fill the batch are gone through.\<close>

lemma pull_records:
  "records_read (rt_kit rt) r d cs r' d' \<Longrightarrow> length pending + length (concat cs) < target \<Longrightarrow>
    pull_loop rt target (at_stream p i r d None) pending
      = pull_loop rt target (at_stream p i r' d' None) (pending @ concat cs)"
proof (induction arbitrary: pending rule: records_read.induct)
  case (read_one r rec r1 d cs r' d')
  from read_one.IH [of "pending @ fst (record_rows (rt_kit rt) d rec)"] read_one.prems show ?case
    by (simp add: pull_loop_unfold [of rt target "at_stream p i r d None"] step_record [OF read_one.hyps(1)] past_def)
qed simp

text \<open>Records whose rows fill it end it on the way.\<close>

lemma pull_fills:
  "records_read (rt_kit rt) r d cs r' d' \<Longrightarrow> length pending < target \<Longrightarrow>
    target \<le> length pending + length (concat cs) \<Longrightarrow>
    \<exists>cs1 cs2 r1 d1. cs = cs1 @ cs2 \<and> concat cs1 \<noteq> [] \<and> records_read (rt_kit rt) r d cs1 r1 d1
      \<and> records_read (rt_kit rt) r1 d1 cs2 r' d'
      \<and> pull_loop rt target (at_stream p i r d None) pending
        = Some (Inr (pending @ concat cs1), at_stream p i r1 d1 None)"
proof (induction arbitrary: pending rule: records_read.induct)
  case (read_one r rec r1 d cs r' d')
  let ?c = "fst (record_rows (rt_kit rt) d rec)" and ?d = "snd (record_rows (rt_kit rt) d rec)"
  note step = pull_loop_unfold [of rt target "at_stream p i r d None"] step_record [OF read_one.hyps(1)] past_def
  show ?case
  proof (cases "target \<le> length pending + length ?c")
    case True
    with read_one.prems have "?c \<noteq> []" by auto
    moreover have "records_read (rt_kit rt) r d [?c] r1 ?d"
      by (intro records_read.read_one [OF read_one.hyps(1)] read_none)
    moreover have "pull_loop rt target (at_stream p i r d None) pending
        = Some (Inr (pending @ concat [?c]), at_stream p i r1 ?d None)"
      using True by (simp add: step)
    ultimately show ?thesis using read_one.hyps(2)
      by (intro exI [of _ "[?c]"] exI [of _ cs] exI [of _ r1] exI [of _ ?d]) simp
  next
    case False
    with read_one.prems have "length (pending @ ?c) < target" "target \<le> length (pending @ ?c) + length (concat cs)"
      by simp_all
    from read_one.IH [OF this] obtain cs1 cs2 r2 d2 where
      "cs = cs1 @ cs2" "concat cs1 \<noteq> []" "records_read (rt_kit rt) r1 ?d cs1 r2 d2"
      "records_read (rt_kit rt) r2 d2 cs2 r' d'"
      "pull_loop rt target (at_stream p i r1 ?d None) (pending @ ?c)
        = Some (Inr ((pending @ ?c) @ concat cs1), at_stream p i r2 d2 None)" by blast
    moreover from this have "records_read (rt_kit rt) r d (?c # cs1) r2 d2"
      by (intro records_read.read_one [OF read_one.hyps(1)])
    ultimately show ?thesis using False by (intro exI [of _ "?c # cs1"] exI [of _ cs2]) (auto simp: step)
  qed
qed simp

text \<open>Records up to the checkpoint are dropped.\<close>

lemma pull_skips:
  "records_read (rt_kit rt) r d cs r' d' \<Longrightarrow> counted N r \<Longrightarrow> N < 2 ^ 64 \<Longrightarrow> stream_pos r' \<le> t \<Longrightarrow>
    pull_loop rt target (at_stream p i r d (Some t)) pending
      = pull_loop rt target (at_stream p i r' d' (Some t)) pending"
proof (induction rule: records_read.induct)
  case (read_one r rec r1 d cs r' d')
  then have "counted N r1" using next_record_counted by blast
  from records_counted [OF read_one.hyps(2) this read_one.prems(2)] read_one.prems(3)
  have "\<not> t < stream_pos r1" by (meson order_trans not_less)
  with read_one.IH [OF \<open>counted N r1\<close>] read_one.prems show ?case
    by (simp add: pull_loop_unfold [of rt target "at_stream p i r d (Some t)"] step_record [OF read_one.hyps(1)] past_def)
qed simp

lemma records_positive:
  assumes "parser_progress kit" "records_read kit r d cs r' d'" "counted N r" "N < 2 ^ 64" "cs \<noteq> []"
  shows "stream_pos r < stream_pos r'"
  using assms(2)
proof cases
  case (read_one rec r1 cs')
  note next_record_advances [OF assms(1) read_one(2) assms(3,4)]
  moreover have "stream_pos r1 \<le> stream_pos r'"
    using records_counted [OF read_one(3)] next_record_counted [OF read_one(2) assms(3,4)] assms(4) by blast
  ultimately show ?thesis by (auto intro: less_le_trans)
qed (use assms(5) in simp)

text \<open>A record right behind the checkpoint is read as if there were none.\<close>

lemma pull_at_checkpoint:
  assumes "parser_progress (rt_kit rt)" "records_read (rt_kit rt) r d cs r' d'" "counted N r" "N < 2 ^ 64" "cs \<noteq> []"
  shows "pull_loop rt target (at_stream p i r d (Some (stream_pos r))) pending
    = pull_loop rt target (at_stream p i r d None) pending"
  using assms(2)
proof cases
  case (read_one rec r1 cs')
  with next_record_advances [OF assms(1) read_one(2) assms(3,4)] show ?thesis
    by (simp add: pull_loop_unfold [of rt target "at_stream p i r d sk" for sk] step_record past_def)
qed (use assms(5) in simp)

end
