(* ===== verification/Scan_Errors.thy ===== *)
theory Scan_Errors
  imports Record_Loops
begin

text \<open>
  Damaged sources and the \<open>strict\<close> switch of \<open>bgp-worker/src/reader.rs\<close>, as a consumer that pulls to
  the end sees them: \<open>damaged\<close> is a source that opens, decodes some records and then gives an error.
  The lemmas split the scan at such a source and say how a complete drain ends; the properties are
  about drains of \<open>pull_rows\<close>, the loop of \<open>pull_batch\<close>.
\<close>

definition damaged ::
  "('s, 'x, 'e) rt \<Rightarrow> 's byte_source \<Rightarrow> mrt_row list list \<Rightarrow> parser_error \<Rightarrow> stream \<Rightarrow> 'e decoder \<Rightarrow> bool" where
  "damaged rt s cs err r d \<longleftrightarrow>
     (\<exists>r0 r1. open_stream (rt_world rt) s = Inr r0
        \<and> records_read (rt_kit rt) r0 (decoder_new (rt_kit rt)) cs r1 d
        \<and> next_record (rt_kit rt) stream_read r1 = (Inl err, r))"

abbreviation opens :: "('s, 'x, 'e) rt \<Rightarrow> 's byte_source \<Rightarrow> bool" where
  "opens rt s \<equiv> \<not> isl (open_stream (rt_world rt) s)"

subsection \<open>Complete drains\<close>

lemma drained:
  assumes "drains mrt_pull sp bs e"
  shows "sp = (rt, target, p) \<Longrightarrow> parser_progress (rt_kit rt) \<Longrightarrow> 0 < target \<Longrightarrow> producer_ok p \<Longrightarrow>
    state_run rt p cs e' \<Longrightarrow>
    e' = e \<and> (\<exists>lost. concat cs = concat bs @ lost \<and> (if e = None then lost = [] else length lost < target))"
  using assms
proof (induction arbitrary: p cs rule: drains.induct)
  case (drain_end sp sp')
  from pull_rows_delivers [OF drain_end.prems(2,4,5,3)] drain_end.hyps drain_end.prems(1,3) show ?case
    by (auto simp: mrt_pull_def delivers_def split: if_splits)
next
  case (drain_fail sp err sp')
  from pull_rows_delivers [OF drain_fail.prems(2,4,5,3)] drain_fail.hyps drain_fail.prems(1) show ?case
    by (auto simp: mrt_pull_def delivers_def)
next
  case (drain_batch sp now sp' bs e)
  from pull_rows_delivers [OF drain_batch.prems(2,4,5,3)] drain_batch.hyps(1) drain_batch.prems(1)
  obtain p' later where p': "sp' = (rt, target, p')" "concat cs = now @ concat later" "state_run rt p' later e'"
    "producer_ok p'"
    by (auto simp: mrt_pull_def delivers_def)
  from drain_batch.IH [OF p'(1) drain_batch.prems(2,3) p'(4,3)] p'(2) show ?case by (auto split: if_splits)
qed

lemma drain_state:
  assumes "parser_progress (rt_kit rt)" "0 < target" "producer_ok p" "state_run rt p cs e"
  shows "\<exists>bs. drains mrt_pull (rt, target, p) bs e \<and> (e = None \<longrightarrow> concat bs = concat cs)"
proof -
  have "mrt_owes (rt, target, p) (concat cs) e" using assms by (auto simp: mrt_owes_def)
  from mrt.drain_owed [OF this] show ?thesis by fastforce
qed

lemma drain_all:
  assumes "parser_progress (rt_kit rt)" "0 < target" "scan_run rt st srcs None cs None"
  shows "\<exists>bs. drains mrt_pull (rt, target, producer_new kit sch k st srcs) bs None \<and> concat bs = concat cs"
  using drain_new [OF assms] by fastforce

lemma drained_new:
  assumes "drains mrt_pull (rt, target, producer_new kit sch k st srcs) bs e"
    "parser_progress (rt_kit rt)" "0 < target"
  obtains cs lost where "scan_run rt st srcs None cs e" "concat cs = concat bs @ lost"
    "if e = None then lost = [] else length lost < target"
proof -
  obtain cs e' where run: "scan_run rt st srcs None cs e'" using scan_run_total [OF assms(2)] by blast
  with drained [OF assms(1) refl assms(2,3) producer_new_ok, of cs e'] that show thesis
    by (auto simp: state_run_new)
qed

subsection \<open>Scans split at a source\<close>

lemma scan_run_append:
  "scan_run rt st pre sk cs0 e0 \<Longrightarrow> sk = None \<Longrightarrow> scan_run rt st rest None cs e \<Longrightarrow>
    scan_run rt st (pre @ rest) sk (if e0 = None then cs0 @ cs else cs0) (if e0 = None then e else e0)"
proof (induction rule: scan_run.induct)
  case (scan_next s r sk cs1 ss cs' e1)
  then show ?case using scan_run.scan_next [OF scan_next.hyps(1,2)] by fastforce
qed (auto intro: scan_open scan_stop)

lemma scan_run_split:
  assumes "parser_progress (rt_kit rt)" "scan_run rt st (pre @ rest) None cs e"
  obtains cs0 e0 where "scan_run rt st pre None cs0 e0"
    "if e0 = None then \<exists>cs1. scan_run rt st rest None cs1 e \<and> cs = cs0 @ cs1 else cs = cs0 \<and> e = e0"
proof -
  obtain cs0 e0 cs1 e1 where run: "scan_run rt st pre None cs0 e0" "scan_run rt st rest None cs1 e1"
    using scan_run_total [OF assms(1)] by meson
  from scan_run_det [OF scan_run_append [OF run(1) refl run(2)] assms(2)] run that show thesis
    by (auto split: if_splits)
qed

lemma error_run:
  assumes "source_run rt st lbl r1 d None cs e" "next_record (rt_kit rt) stream_read r1 = (Inl err, r)"
  shows "if st then cs = [] \<and> e = Some (ValueError (err_text rt lbl err))
     else if is_recoverable err
       then \<exists>cs2. source_run rt st lbl r d None cs2 e \<and> cs = [error_row (err_text rt lbl err)] # cs2
       else cs = [[error_row (err_text rt lbl err)]] \<and> e = None"
  using assms(1)
proof cases
  case (run_strict err' r')
  with assms(2) show ?thesis by simp
next
  case (run_recover err' r' cs')
  with assms(2) show ?thesis by (simp add: past_def)
next
  case (run_torn err' r')
  with assms(2) show ?thesis by (simp add: past_def)
qed (use assms(2) in simp_all)

lemma damaged_source:
  assumes "parser_progress (rt_kit rt)" "damaged rt s cs err r d" "open_stream (rt_world rt) s = Inr r0"
    and "source_run rt st (label s) r0 (decoder_new (rt_kit rt)) None ds e"
  obtains cs' where "ds = cs @ cs'"
    "if st then cs' = [] \<and> e = Some (ValueError (err_text rt (label s) err))
     else if is_recoverable err
       then \<exists>cs2. source_run rt st (label s) r d None cs2 e \<and> cs' = [error_row (err_text rt (label s) err)] # cs2
       else cs' = [[error_row (err_text rt (label s) err)]] \<and> e = None"
proof -
  from assms(2,3) obtain r1 where r1: "records_read (rt_kit rt) r0 (decoder_new (rt_kit rt)) cs r1 d"
    "next_record (rt_kit rt) stream_read r1 = (Inl err, r)" by (auto simp: damaged_def)
  obtain cs' e' where run: "source_run rt st (label s) r1 d None cs' e'"
    using source_run_total [OF assms(1)] by blast
  from source_run_det [OF records_run [OF r1(1) run] assms(4)] have "ds = cs @ cs'" "e = e'" by auto
  with error_run [OF run r1(2)] that show thesis by blast
qed

subsection \<open>How a scan ends\<close>

lemma lenient_end:
  "scan_run rt False ss sk cs e \<Longrightarrow>
     (case e of
        None \<Rightarrow> list_all (opens rt) ss
      | Some er \<Rightarrow> \<exists>ok s later. ss = ok @ s # later \<and> list_all (opens rt) ok \<and> open_stream (rt_world rt) s = Inl er)"
proof (induction ss sk cs e rule: scan_run.induct)
  case (scan_open s e ss sk)
  then show ?case by (auto intro: exI [of _ "[]"])
next
  case (scan_stop s r sk cs e ss)
  then show ?case using source_run_error by fastforce
next
  case (scan_next s r sk cs ss cs' e)
  show ?case
  proof (cases e)
    case (Some er)
    with scan_next.IH obtain ok s' later where "ss = ok @ s' # later" "list_all (opens rt) ok"
      "open_stream (rt_world rt) s' = Inl er" by auto
    with scan_next.hyps(1) Some show ?thesis by (auto intro!: exI [of _ "s # ok"])
  qed (use scan_next in simp)
qed simp

lemma strict_source_end:
  "source_run rt st lbl r d sk cs e \<Longrightarrow> sk = None \<Longrightarrow> st \<Longrightarrow> e = Some er \<Longrightarrow>
     \<exists>r1 d1 err r2. records_read (rt_kit rt) r d cs r1 d1
       \<and> next_record (rt_kit rt) stream_read r1 = (Inl err, r2) \<and> er = ValueError (err_text rt lbl err)"
proof (induction rule: source_run.induct)
  case (run_record r rec r' sk d cs e)
  then show ?case by (blast intro: read_one)
next
  case (run_strict r err r' d sk)
  then show ?case by (blast intro: read_none)
qed (auto simp: past_def)

lemma strict_end:
  "scan_run rt True ss sk cs e \<Longrightarrow> sk = None \<Longrightarrow> e = Some er \<Longrightarrow>
     \<exists>pre s later cs0. ss = pre @ s # later \<and> scan_run rt True pre None cs0 None
       \<and> (open_stream (rt_world rt) s = Inl er
          \<or> (\<exists>cs err r d. damaged rt s cs err r d \<and> er = ValueError (err_text rt (label s) err)))"
proof (induction ss sk cs e rule: scan_run.induct)
  case (scan_open s e ss sk)
  then show ?case using scan_run.scan_nil by (fastforce intro: exI [of _ "[]"])
next
  case (scan_stop s r sk cs e ss)
  from strict_source_end [OF scan_stop(2,3)] scan_stop(1,4)
  have "\<exists>cs err r d. damaged rt s cs err r d \<and> er = ValueError (err_text rt (label s) err)"
    unfolding damaged_def by fastforce
  then show ?case using scan_run.scan_nil by (fastforce intro: exI [of _ "[]"])
next
  case (scan_next s r sk cs ss cs' e)
  then obtain pre s' later cs0 where *: "ss = pre @ s' # later" "scan_run rt True pre None cs0 None"
    "open_stream (rt_world rt) s' = Inl er
      \<or> (\<exists>cs err r d. damaged rt s' cs err r d \<and> er = ValueError (err_text rt (label s') err))" by blast
  with scan_run.scan_next [OF scan_next.hyps(1,2) *(2)] scan_next.prems(1) show ?case
    by (intro exI [of _ "s # pre"]) auto
qed simp

text \<open>What is left of a lenient scan behind a damaged record: the rest of its source when the error is
  recoverable, and otherwise the sources behind it.\<close>

definition rest_of_scan ::
  "('s, 'x, 'e) rt \<Rightarrow> schema \<Rightarrow> kind \<Rightarrow> 's byte_source \<Rightarrow> 's byte_source list \<Rightarrow> parser_error
   \<Rightarrow> stream \<Rightarrow> 'e decoder \<Rightarrow> ('s, 'e) producer" where
  "rest_of_scan rt sch k s ss err r d =
     (if is_recoverable err then at_stream (producer_new (rt_kit rt) sch k False (s # ss)) 0 r d None
      else producer_new (rt_kit rt) sch k False ss)"

lemma lenient_damage:
  assumes "parser_progress (rt_kit rt)" "0 < target" "scan_run rt False (pre @ s # ss) None cs None"
    and "damaged rt s good err r d"
  shows "\<exists>before after. drains mrt_pull (rt, target, producer_new (rt_kit rt) sch k False pre) before None
    \<and> drains mrt_pull (rt, target, rest_of_scan rt sch k s ss err r d) after None
    \<and> concat cs = concat before @ concat good @ [error_row (err_text rt (label s) err)] @ concat after"
proof -
  obtain cs0 cs1 where split: "scan_run rt False pre None cs0 None" "scan_run rt False (s # ss) None cs1 None"
    "cs = cs0 @ cs1"
    by (rule scan_run_split [OF assms(1,3)]) (auto split: if_splits)
  from split(2) obtain r0 ds ds2 where s: "open_stream (rt_world rt) s = Inr r0" "cs1 = ds @ ds2"
    "source_run rt False (label s) r0 (decoder_new (rt_kit rt)) None ds None" "scan_run rt False ss None ds2 None"
    by (rule scan_consE) auto
  obtain cs' where cs': "ds = good @ cs'"
    "if is_recoverable err
       then \<exists>cs2. source_run rt False (label s) r d None cs2 None \<and> cs' = [error_row (err_text rt (label s) err)] # cs2
       else cs' = [[error_row (err_text rt (label s) err)]]"
    by (rule damaged_source [OF assms(1,4) s(1,3)]) (auto split: if_splits)
  let ?p = "rest_of_scan rt sch k s ss err r d"
  have "\<exists>later. state_run rt ?p later None
      \<and> concat cs' @ concat ds2 = error_row (err_text rt (label s) err) # concat later"
  proof (cases "is_recoverable err")
    case True
    with cs'(2) obtain cs2 where "source_run rt False (label s) r d None cs2 None"
      "cs' = [error_row (err_text rt (label s) err)] # cs2" by auto
    with s(4) True show ?thesis
      by (intro exI [of _ "cs2 @ ds2"])
        (fastforce simp: rest_of_scan_def state_run_def after_source_def then_scan_def)
  next
    case False
    with cs'(2) s(4) show ?thesis by (auto simp: rest_of_scan_def state_run_new)
  qed
  then obtain later where later: "state_run rt ?p later None"
    "concat cs' @ concat ds2 = error_row (err_text rt (label s) err) # concat later" by blast
  have "producer_ok ?p" by (simp add: rest_of_scan_def producer_new_ok producer_ok_def)
  from drain_state [OF assms(1,2) this later(1)] obtain after where after:
    "drains mrt_pull (rt, target, ?p) after None" "concat after = concat later" by auto
  from drain_all [OF assms(1,2) split(1)]
  obtain before where "drains mrt_pull (rt, target, producer_new (rt_kit rt) sch k False pre) before None"
    "concat before = concat cs0" by blast
  with after later(2) split(3) s(2) cs'(1) show ?thesis by fastforce
qed

lemma strict_damage:
  assumes "parser_progress (rt_kit rt)" "scan_run rt True (pre @ s # ss) None cs e"
    and "damaged rt s good err r d" "scan_run rt True pre None cs0 None"
  shows "e = Some (ValueError (err_text rt (label s) err)) \<and> cs = cs0 @ good"
proof -
  obtain cs1 where cs1: "scan_run rt True (s # ss) None cs1 e" "cs = cs0 @ cs1"
    by (rule scan_run_split [OF assms(1,2)]) (use scan_run_det [OF assms(4)] in \<open>auto split: if_splits\<close>)
  from assms(3) obtain r0 where r0: "open_stream (rt_world rt) s = Inr r0" by (auto simp: damaged_def)
  note run = damaged_source [OF assms(1,3) r0]
  from cs1(1) show ?thesis
    by (rule scan_consE) (use r0 cs1(2) in \<open>auto elim: run\<close>)
qed

lemma strict_clean:
  assumes "parser_progress (rt_kit rt)" "scan_run rt True srcs None cs e" "e = None"
  shows "list_all (\<lambda>s. opens rt s \<and> \<not> (\<exists>good err r d. damaged rt s good err r d)) srcs"
  unfolding list_all_iff
proof
  fix s assume "s \<in> set srcs"
  then obtain pre ss where srcs: "srcs = pre @ s # ss" by (meson split_list)
  obtain cs0 cs1 where split: "scan_run rt True pre None cs0 None" "scan_run rt True (s # ss) None cs1 None"
    by (rule scan_run_split [OF assms(1) assms(2) [unfolded srcs]]) (use assms(3) in \<open>auto split: if_splits\<close>)
  from split(2) have "opens rt s" by (rule scan_consE) auto
  with strict_damage [OF assms(1) assms(2) [unfolded srcs] _ split(1)] assms(3)
  show "opens rt s \<and> \<not> (\<exists>good err r d. damaged rt s good err r d)" by blast
qed

subsection \<open>Properties\<close>

text \<open>
  C13: without \<open>strict\<close> damaged data never aborts a scan. A consumer that pulls to the end gets an error
  only when a source cannot be opened, and then that of the first such source; every row it gets is a
  decoded one or an error row whose message starts with the name of a source; and when every source
  opens, the first damaged record of a source, wherever that source is, becomes one error row, with the
  name of the source and the parser's message, in its place: behind the rows of the sources before
  and the rows decoded so far, and before those of a scan of what is left, which is the rest of the
  same source when the parser can go on and else the sources behind it.
\<close>

theorem lenient_scan:
  assumes "parser_progress (rt_kit rt)" and "0 < target"
    and "drains mrt_pull (rt, target, producer_new (rt_kit rt) sch k False srcs) bs e"
  shows "(case e of
      None \<Rightarrow> list_all (opens rt) srcs
    | Some er \<Rightarrow> \<exists>ok s later. srcs = ok @ s # later \<and> list_all (opens rt) ok \<and> open_stream (rt_world rt) s = Inl er)
    \<and> list_all (\<lambda>row. decoded_row row
        \<or> (\<exists>s err. s \<in> set srcs \<and> row = error_row (label s @ '': '' @ show_parser_error (rt_kit rt) err)))
      (concat bs)
    \<and> (\<forall>pre s ss good err r d. srcs = pre @ s # ss \<longrightarrow> damaged rt s good err r d \<longrightarrow> e = None \<longrightarrow>
        (\<exists>before after. drains mrt_pull (rt, target, producer_new (rt_kit rt) sch k False pre) before None
          \<and> drains mrt_pull (rt, target, rest_of_scan rt sch k s ss err r d) after None
          \<and> concat bs = concat before @ concat good
              @ [error_row (label s @ '': '' @ show_parser_error (rt_kit rt) err)] @ concat after))"
proof -
  obtain cs lost where run: "scan_run rt False srcs None cs e" "concat cs = concat bs @ lost"
    "if e = None then lost = [] else length lost < target"
    by (rule drained_new [OF assms(3,1,2)])
  have "list_all (\<lambda>row. decoded_row row
      \<or> (\<exists>s err. s \<in> set srcs \<and> row = error_row (label s @ '': '' @ show_parser_error (rt_kit rt) err))) (concat cs)"
    using scan_run_rows [OF run(1)] by (fastforce simp: list_all_iff err_text_def)
  with run(2) have "list_all (\<lambda>row. decoded_row row
      \<or> (\<exists>s err. s \<in> set srcs \<and> row = error_row (label s @ '': '' @ show_parser_error (rt_kit rt) err))) (concat bs)"
    by simp
  moreover have "\<exists>before after. drains mrt_pull (rt, target, producer_new (rt_kit rt) sch k False pre) before None
      \<and> drains mrt_pull (rt, target, rest_of_scan rt sch k s ss err r d) after None
      \<and> concat bs = concat before @ concat good
          @ [error_row (label s @ '': '' @ show_parser_error (rt_kit rt) err)] @ concat after"
    if "srcs = pre @ s # ss" "damaged rt s good err r d" "e = None" for pre s ss good err r d
    using lenient_damage [OF assms(1,2) _ that(2), of pre ss cs sch k] run that(1,3)
    unfolding err_text_def by simp
  ultimately show ?thesis using lenient_end [OF run(1)] by blast
qed

lemma toy_damaged:
  "damaged toy_rt (BytesSource [1, 0xFE, 2]) [[toy_row 1]] (OtherError ''corrupt'') (toy_stream [2] 2) toy_decoder"
proof -
  have "open_stream (rt_world toy_rt) (BytesSource [1, 0xFE, 2]) = Inr (toy_stream [1, 0xFE, 2] 0)"
    using toy_open [of "[1, 0xFE, 2]"] by (simp add: good_bytes_def)
  moreover have "records_read toy_kit (toy_stream [1, 0xFE, 2] 0) toy_decoder [[toy_row 1]] (toy_stream [0xFE, 2] 1) toy_decoder"
    using read_one [OF _ read_none, of toy_kit "toy_stream [1, 0xFE, 2] 0" "toy_record 1" "toy_stream [0xFE, 2] 1" toy_decoder]
    by (simp add: toy_next toy_parse_good)
  moreover have "next_record toy_kit stream_read (toy_stream [0xFE, 2] 1) = (Inl (OtherError ''corrupt''), toy_stream [2] 2)"
    by (simp add: toy_next toy_parse_byte_def)
  ultimately show ?thesis unfolding damaged_def by fastforce
qed

lemma toy_shows [simp]: "show_parser_error toy_kit (OtherError s) = s"
  by (simp add: toy_kit_def)

lemma toy_drains: "\<exists>bs e. drains mrt_pull (toy_rt, t, producer_new toy_kit rib_schema Rib st srcs) bs e" if "0 < t"
proof -
  obtain cs e where "scan_run toy_rt st srcs None cs e" using scan_run_total [of toy_rt] toy_progress by fastforce
  from drain_new [OF _ that this, of toy_kit rib_schema Rib] toy_progress show ?thesis by auto
qed

theorem lenient_scan_witness:
  "\<exists>bs after. drains mrt_pull (toy_rt, 2, producer_new toy_kit rib_schema Rib False [BytesSource [1, 0xFE, 2]]) bs None
    \<and> drains mrt_pull (toy_rt, 2, rest_of_scan toy_rt rib_schema Rib (BytesSource [1, 0xFE, 2]) []
         (OtherError ''corrupt'') (toy_stream [2] 2) toy_decoder) after None
    \<and> concat bs = [toy_row 1, error_row ''<blob>: corrupt''] @ concat after"
proof -
  let ?s = "BytesSource [1, 0xFE, 2]"
  obtain bs e where d: "drains mrt_pull (toy_rt, 2, producer_new (rt_kit toy_rt) rib_schema Rib False [?s]) bs e"
    using toy_drains [of 2 False "[?s]"] by auto
  from lenient_scan [OF _ _ this] have e: "e = None"
    using toy_damaged by (fastforce simp: toy_progress damaged_def Cons_eq_append_conv split: option.splits)
  have "0 < (2 :: nat)" by simp
  note scan = lenient_scan [OF toy_progress [folded toy_rt_simps(2)] this d, THEN conjunct2, THEN conjunct2, rule_format]
  from scan [of "[]" ?s "[]", OF _ toy_damaged e] obtain before after where *:
    "drains mrt_pull (toy_rt, 2, producer_new toy_kit rib_schema Rib False ([] :: unit byte_source list)) before None"
    "drains mrt_pull (toy_rt, 2, rest_of_scan toy_rt rib_schema Rib ?s []
         (OtherError ''corrupt'') (toy_stream [2] 2) toy_decoder) after None"
    "concat bs = concat before @ [toy_row 1] @ [error_row ''<blob>: corrupt''] @ concat after"
    by auto
  obtain cs where "scan_run toy_rt False [] None cs None" "concat cs = concat before"
    by (rule drained_new [OF *(1)]) (simp_all add: toy_progress)
  then have "concat before = []" by (simp add: scan_run_nil)
  with * e d show ?thesis by (metis append_Cons append_Nil toy_rt_simps(2))
qed

text \<open>
  C14: with \<open>strict\<close> no error is swallowed. A strict consumer that pulls to the end gets decoded rows only. It
  ends without an error only when no source is damaged, and then it got the rows of the lenient scan.
  Otherwise it ends at the first source that cannot be opened or is damaged, with the error of opening
  it or an error that names it and carries the parser's message; and of the rows before the damage it
  misses fewer than a batch holds.
\<close>

theorem strict_scan:
  assumes "parser_progress (rt_kit rt)" and "0 < target"
    and "drains mrt_pull (rt, target, producer_new (rt_kit rt) sch k True srcs) bs e"
    and "drains mrt_pull (rt, target, producer_new (rt_kit rt) sch k False srcs) bs' e'"
  shows "list_all decoded_row (concat bs)
    \<and> (case e of
        None \<Rightarrow> concat bs' = concat bs \<and> e' = None
          \<and> list_all (\<lambda>s. opens rt s \<and> \<not> (\<exists>good err r d. damaged rt s good err r d)) srcs
      | Some er \<Rightarrow> \<exists>pre s ss before. srcs = pre @ s # ss
          \<and> drains mrt_pull (rt, target, producer_new (rt_kit rt) sch k True pre) before None
          \<and> (open_stream (rt_world rt) s = Inl er
             \<or> (\<exists>good err r d. damaged rt s good err r d
                  \<and> er = ValueError (label s @ '': '' @ show_parser_error (rt_kit rt) err))))
    \<and> (\<forall>pre s ss before good err r d. srcs = pre @ s # ss \<longrightarrow>
        drains mrt_pull (rt, target, producer_new (rt_kit rt) sch k True pre) before None \<longrightarrow>
        damaged rt s good err r d \<longrightarrow>
        e = Some (ValueError (label s @ '': '' @ show_parser_error (rt_kit rt) err))
        \<and> (\<exists>lost. concat before @ concat good = concat bs @ lost \<and> length lost < target))"
proof -
  obtain cs lost where run: "scan_run rt True srcs None cs e" "concat cs = concat bs @ lost"
    "if e = None then lost = [] else length lost < target"
    by (rule drained_new [OF assms(3,1,2)])
  obtain cs' lost' where run': "scan_run rt False srcs None cs' e'" "concat cs' = concat bs' @ lost'"
    "if e' = None then lost' = [] else length lost' < target"
    by (rule drained_new [OF assms(4,1,2)])
  have "list_all decoded_row (concat cs)" using scan_run_rows [OF run(1)] by (auto simp: list_all_iff)
  then have "list_all decoded_row (concat bs)" using run(2) by simp
  moreover have "case e of
        None \<Rightarrow> concat bs' = concat bs \<and> e' = None
          \<and> list_all (\<lambda>s. opens rt s \<and> \<not> (\<exists>good err r d. damaged rt s good err r d)) srcs
      | Some er \<Rightarrow> \<exists>pre s ss before. srcs = pre @ s # ss
          \<and> drains mrt_pull (rt, target, producer_new (rt_kit rt) sch k True pre) before None
          \<and> (open_stream (rt_world rt) s = Inl er
             \<or> (\<exists>good err r d. damaged rt s good err r d
                  \<and> er = ValueError (label s @ '': '' @ show_parser_error (rt_kit rt) err)))"
  proof (cases e)
    case None
    with strict_scan_prefix [OF run(1) run'(1)] run(2,3) run'(2,3) strict_clean [OF assms(1) run(1)]
    show ?thesis by auto
  next
    case (Some er)
    from strict_end [OF run(1) refl Some] obtain pre s later cs0 where *: "srcs = pre @ s # later"
      "scan_run rt True pre None cs0 None"
      "open_stream (rt_world rt) s = Inl er
       \<or> (\<exists>cs err r d. damaged rt s cs err r d \<and> er = ValueError (err_text rt (label s) err))" by blast
    obtain before where "drains mrt_pull (rt, target, producer_new (rt_kit rt) sch k True pre) before None"
      using drain_all [OF assms(1,2) *(2)] by blast
    with *(1,3) Some show ?thesis unfolding err_text_def Some option.case by blast
  qed
  moreover have "e = Some (ValueError (label s @ '': '' @ show_parser_error (rt_kit rt) err))
      \<and> (\<exists>lost. concat before @ concat good = concat bs @ lost \<and> length lost < target)"
    if "srcs = pre @ s # ss" "drains mrt_pull (rt, target, producer_new (rt_kit rt) sch k True pre) before None"
      "damaged rt s good err r d" for pre s ss before good err r d
  proof -
    note damage = that
    obtain cs0 where "scan_run rt True pre None cs0 None" "concat cs0 = concat before"
      by (rule drained_new [OF damage(2) assms(1,2)]) simp
    with strict_damage [OF assms(1) run(1) [unfolded damage(1)] damage(3)] run(2,3)
    show ?thesis by (auto simp: err_text_def)
  qed
  ultimately show ?thesis by blast
qed

theorem strict_scan_witness:
  "\<exists>bs. drains mrt_pull (toy_rt, 1, producer_new toy_kit rib_schema Rib True [BytesSource [1, 0xFE, 2]]) bs
      (Some (ValueError ''<blob>: corrupt'')) \<and> concat bs = [toy_row 1]"
proof -
  let ?s = "BytesSource [1, 0xFE, 2]"
  obtain bs e bs' e' where d:
    "drains mrt_pull (toy_rt, 1, producer_new (rt_kit toy_rt) rib_schema Rib True [?s]) bs e"
    "drains mrt_pull (toy_rt, 1, producer_new (rt_kit toy_rt) rib_schema Rib False [?s]) bs' e'"
    using toy_drains [of 1 True "[?s]"] toy_drains [of 1 False "[?s]"] by auto
  obtain before where before:
    "drains mrt_pull (toy_rt, 1, producer_new toy_kit rib_schema Rib True ([] :: unit byte_source list)) before None"
    "concat before = []"
    using drain_all [of toy_rt 1 True "[]" "[]" toy_kit rib_schema Rib] by (auto simp: toy_progress scan_run_nil)
  have "0 < (1 :: nat)" by simp
  note scan = strict_scan [OF toy_progress [folded toy_rt_simps(2)] this d, THEN conjunct2, THEN conjunct2, rule_format]
  from scan [of "[]" ?s "[]", OF _ before(1) [folded toy_rt_simps(2)] toy_damaged] before(2)
  have "e = Some (ValueError ''<blob>: corrupt'')" "concat bs = [toy_row 1]" by simp_all
  with d(1) show ?thesis by auto
qed

end
