(* ===== verification/Block_On.thy ===== *)
theory Block_On
  imports Cloud
begin

text \<open>
  The bridge from the synchronous SDK to asynchronous storage in \<open>bgp-worker/src/cloud.rs\<close>: the shared
  runtime of \<open>runtime\<close>, and \<open>block_on\<close>, which drives a future to completion from any thread.

  \<^item> \<open>tokio\<close> holds the crate's functions the code calls, over the state \<open>'t\<close> of a thread; a panic is a
    value, \<open>Inl\<close> its message. \<open>tokio_documented\<close> is what the crate's documentation says of them: to
    block on a future panics inside an asynchronous context, \<open>block_in_place\<close> leaves that context on a
    multi-thread runtime and panics on a current-thread one.
  \<^item> \<open>get_or_init\<close> is \<open>OnceLock\<close> (and the lazy value of a \<open>thread_local!\<close>): \<open>None\<close> until the first value.
  The lemmas show that every call returns the output of its future, that one runtime is built and
  shared, and that the calls of \<open>Cloud\<close>, in which the future is run to its end, are these.
\<close>

subsection \<open>Runtimes\<close>

datatype runtime_flavor = CurrentThread | MultiThread

record ('t, 'h, 'rt, 'f, 'v) tokio =
  try_current :: "'t \<Rightarrow> 'h option"
  flavor :: "'h \<Rightarrow> runtime_flavor"
  block_in_place :: "'t \<Rightarrow> ('t \<Rightarrow> 'v outcome) \<Rightarrow> 'v outcome"
  handle_block_on :: "'h \<Rightarrow> 't \<Rightarrow> 'f \<Rightarrow> 'v outcome"
  runtime_block_on :: "'rt \<Rightarrow> 't \<Rightarrow> 'f \<Rightarrow> 'v outcome"
  build_multi_thread :: "string + 'rt"
  build_current_thread :: "string + 'rt"
  new_thread :: 't

fun expect :: "string \<Rightarrow> string + 'a \<Rightarrow> 'a outcome" where
  "expect msg (Inl e) = Inl (msg @ '': '' @ e)"
| "expect msg (Inr a) = Inr a"

definition get_or_init :: "'a outcome \<Rightarrow> 'a option \<Rightarrow> 'a outcome \<times> 'a option" where
  "get_or_init init cell =
     (case cell of
        Some a \<Rightarrow> (Inr a, cell)
      | None \<Rightarrow> (case init of Inr a \<Rightarrow> (Inr a, Some a) | Inl panic \<Rightarrow> (Inl panic, None)))"

definition runtime :: "('t, 'h, 'rt, 'f, 'v) tokio \<Rightarrow> 'rt option \<Rightarrow> 'rt outcome \<times> 'rt option" where
  "runtime tk cell =
     get_or_init (expect ''build tokio runtime for cloud I/O'' (build_multi_thread tk)) cell"

definition block_on_shared ::
  "('t, 'h, 'rt, 'f, 'v) tokio \<Rightarrow> 'rt option \<Rightarrow> 't \<Rightarrow> 'f \<Rightarrow> 'v outcome \<times> 'rt option" where
  "block_on_shared tk cell t fut =
     (case runtime tk cell of
        (Inl panic, cell') \<Rightarrow> (Inl panic, cell')
      | (Inr rt, cell') \<Rightarrow> (runtime_block_on tk rt t fut, cell'))"

text \<open>\<open>join().unwrap()\<close>: a panic of the thread is a panic of the caller, with \<open>unwrap\<close>'s message.\<close>

fun join_unwrap :: "'v outcome \<Rightarrow> 'v outcome" where
  "join_unwrap (Inl panic) = Inl ''called `Result::unwrap()` on an `Err` value: Any { .. }''"
| "join_unwrap (Inr v) = Inr v"

definition block_on ::
  "('t, 'h, 'rt, 'f, 'v) tokio \<Rightarrow> 'rt option \<Rightarrow> 't \<Rightarrow> 'f \<Rightarrow> 'v outcome \<times> 'rt option" where
  "block_on tk cell t fut =
     (case try_current tk t of
        Some handle \<Rightarrow>
          if flavor tk handle = MultiThread
          then (block_in_place tk t (\<lambda>t'. handle_block_on tk handle t' fut), cell)
          else (case block_on_shared tk cell (new_thread tk) fut of (out, cell') \<Rightarrow> (join_unwrap out, cell'))
      | None \<Rightarrow> block_on_shared tk cell t fut)"

text \<open>The build for \<open>wasm32\<close>: \<open>cell\<close> is the runtime of the calling thread.\<close>

definition block_on_wasm ::
  "('t, 'h, 'rt, 'f, 'v) tokio \<Rightarrow> 'rt option \<Rightarrow> 't \<Rightarrow> 'f \<Rightarrow> 'v outcome \<times> 'rt option" where
  "block_on_wasm tk cell t fut =
     (case get_or_init (expect ''build tokio runtime for cloud I/O'' (build_current_thread tk)) cell of
        (Inl panic, cell') \<Rightarrow> (Inl panic, cell')
      | (Inr rt, cell') \<Rightarrow> (runtime_block_on tk rt t fut, cell'))"

text \<open>Calls from several threads, one after the other.\<close>

fun block_on_all ::
  "('t, 'h, 'rt, 'f, 'v) tokio \<Rightarrow> 'rt option \<Rightarrow> ('t \<times> 'f) list \<Rightarrow> 'v outcome list \<times> 'rt option" where
  "block_on_all tk cell [] = ([], cell)"
| "block_on_all tk cell ((t, fut) # calls) =
     (case block_on tk cell t fut of
        (out, cell') \<Rightarrow> (case block_on_all tk cell' calls of (outs, cell'') \<Rightarrow> (out # outs, cell'')))"

subsection \<open>What the crate documents\<close>

text \<open>
  \<open>may_block t\<close>: the thread is not in an asynchronous context; \<open>output\<close>: what the future completes with.
\<close>

definition tokio_documented ::
  "('t, 'h, 'rt, 'f, 'v) tokio \<Rightarrow> ('t \<Rightarrow> bool) \<Rightarrow> ('f \<Rightarrow> 'v) \<Rightarrow> bool" where
  "tokio_documented tk may_block output \<longleftrightarrow>
     (\<forall>rt t fut. if may_block t then runtime_block_on tk rt t fut = Inr (output fut)
        else isl (runtime_block_on tk rt t fut))
     \<and> (\<forall>h t fut. if may_block t then handle_block_on tk h t fut = Inr (output fut)
        else isl (handle_block_on tk h t fut))
     \<and> (\<forall>t h f. try_current tk t = Some h \<longrightarrow> \<not> may_block t \<longrightarrow>
          (case flavor tk h of
             MultiThread \<Rightarrow> \<exists>t'. may_block t' \<and> block_in_place tk t f = f t'
           | CurrentThread \<Rightarrow> isl (block_in_place tk t f)))
     \<and> (\<forall>t f. may_block t \<longrightarrow> block_in_place tk t f = f t)
     \<and> (\<forall>t. try_current tk t = None \<longrightarrow> may_block t)
     \<and> try_current tk (new_thread tk) = None"

lemma tokio_facts:
  assumes "tokio_documented tk may_block output"
  shows "may_block t \<Longrightarrow> runtime_block_on tk rt t fut = Inr (output fut)"
    and "may_block t \<Longrightarrow> handle_block_on tk h t fut = Inr (output fut)"
    and "try_current tk t = None \<Longrightarrow> may_block t"
    and "may_block (new_thread tk)"
    and "try_current tk t = Some h \<Longrightarrow> flavor tk h = MultiThread \<Longrightarrow>
      \<exists>t'. may_block t' \<and> block_in_place tk t f = f t'"
proof -
  note documented = assms [unfolded tokio_documented_def]
  show "may_block t \<Longrightarrow> runtime_block_on tk rt t fut = Inr (output fut)"
    using documented [THEN conjunct1] by simp
  show "may_block t \<Longrightarrow> handle_block_on tk h t fut = Inr (output fut)"
    using documented [THEN conjunct2, THEN conjunct1] by simp
  show outside: "try_current tk t = None \<Longrightarrow> may_block t" for t
    using documented by blast
  show "may_block (new_thread tk)"
    using documented outside by blast
  show "try_current tk t = Some h \<Longrightarrow> flavor tk h = MultiThread \<Longrightarrow>
      \<exists>t'. may_block t' \<and> block_in_place tk t f = f t'"
    using documented [THEN conjunct2, THEN conjunct2, THEN conjunct1, rule_format, of t h f]
      documented [THEN conjunct2, THEN conjunct2, THEN conjunct2, THEN conjunct1]
    by (cases "may_block t") auto
qed

lemma block_on_ok:
  assumes "tokio_documented tk may_block output" "cell \<noteq> None \<or> build_multi_thread tk = Inr rt0"
  shows "\<exists>cell'. block_on tk cell t fut = (Inr (output fut), cell')
    \<and> (cell' = cell \<or> cell = None \<and> cell' = Some rt0)"
proof -
  have shared: "\<exists>cell'. block_on_shared tk cell t' fut = (Inr (output fut), cell')
      \<and> (cell' = cell \<or> cell = None \<and> cell' = Some rt0)" if "may_block t'" for t'
    using assms(2) tokio_facts(1) [OF assms(1) that]
    by (cases cell) (auto simp: block_on_shared_def runtime_def get_or_init_def)
  show ?thesis
  proof (cases "try_current tk t")
    case None
    with shared [OF tokio_facts(3) [OF assms(1)]] show ?thesis by (simp add: block_on_def)
  next
    case (Some h)
    show ?thesis
    proof (cases "flavor tk h")
      case CurrentThread
      with Some shared [OF tokio_facts(4) [OF assms(1)]] show ?thesis by (auto simp: block_on_def)
    next
      case MultiThread
      with tokio_facts(5) [OF assms(1) Some, of "\<lambda>t'. handle_block_on tk h t' fut"]
      show ?thesis using Some tokio_facts(2) [OF assms(1)] by (auto simp: block_on_def)
    qed
  qed
qed

lemma block_on_all_ok:
  assumes "tokio_documented tk may_block output"
  shows "cell \<noteq> None \<or> build_multi_thread tk = Inr rt0 \<Longrightarrow>
    \<exists>cell'. block_on_all tk cell calls = (map (\<lambda>(t, fut). Inr (output fut)) calls, cell')
      \<and> (cell' = cell \<or> cell = None \<and> cell' = Some rt0)"
proof (induction calls arbitrary: cell)
  case Nil
  then show ?case by simp
next
  case (Cons call calls)
  obtain t fut where call: "call = (t, fut)" by (cases call)
  from block_on_ok [OF assms Cons.prems] obtain cell1 where
    1: "block_on tk cell t fut = (Inr (output fut), cell1)" "cell1 = cell \<or> cell = None \<and> cell1 = Some rt0" by blast
  with Cons.prems have "cell1 \<noteq> None \<or> build_multi_thread tk = Inr rt0" by auto
  from Cons.IH [OF this] 1 show ?case by (auto simp: call)
qed

subsection \<open>Fetching an object\<close>

text \<open>
  \<open>fetch_object\<close> with its \<open>block_on\<close> written out: \<open>get\<close> is the future of the two awaited calls, which
  completes with the bytes or the text of an error.
\<close>

definition fetch_object_blocking ::
  "('t, 'h, 'rt, 'f, string + u8 list) tokio \<Rightarrow> ('s \<Rightarrow> string \<Rightarrow> 'f) \<Rightarrow> 'rt option \<Rightarrow> 't
   \<Rightarrow> 's \<Rightarrow> string \<Rightarrow> url \<Rightarrow> u8 list rpc_result outcome \<times> 'rt option" where
  "fetch_object_blocking tk get cell t store path u =
     (case block_on tk cell t (get store path) of
        (Inl panic, cell') \<Rightarrow> (Inl panic, cell')
      | (Inr r, cell') \<Rightarrow> (Inr (map_err (\<lambda>e. ValueError (''read '' @ url_text u @ '': '' @ e)) r), cell'))"

text \<open>A runtime that cannot be built is a panic, except where a multi-thread runtime drives the future.\<close>

lemma block_on_no_runtime:
  assumes "build_multi_thread tk = Inl e"
  shows "try_current tk t = None \<Longrightarrow>
      block_on tk None t fut = (Inl (''build tokio runtime for cloud I/O: '' @ e), None)"
    and "try_current tk t = Some h \<Longrightarrow> flavor tk h = CurrentThread \<Longrightarrow> isl (fst (block_on tk None t fut))"
  using assms by (simp_all add: block_on_def block_on_shared_def runtime_def get_or_init_def)

subsection \<open>Properties\<close>

text \<open>
  C28: driving a future never nests runtimes: from threads in any state (outside every runtime, on a
  multi-thread runtime or on a current-thread one, asynchronous or not), in any order, every call of
  \<open>block_on\<close> returns the output of its future and none panics, and the calls build at most one shared
  runtime, which is never replaced; so a fetch through it is the fetch of \<open>Cloud\<close>, and a thread of
  the \<open>wasm32\<close> build, which has no runtime of its own, gets one and keeps it.
\<close>

theorem block_on_returns:
  assumes "tokio_documented tk may_block output"
    and "cell \<noteq> None \<or> build_multi_thread tk = Inr rt0"
    and "\<And>store path. output (get store path) = store_get w store path"
    and "build_current_thread tk = Inr rt1" and "try_current tk t0 = None"
  shows "(\<exists>cell'. block_on_all tk cell calls = (map (\<lambda>(t, fut). Inr (output fut)) calls, cell')
        \<and> (cell' = cell \<or> cell = None \<and> cell' = Some rt0))
    \<and> fst (fetch_object_blocking tk get cell t store path u) = Inr (fetch_object w store path u)
    \<and> block_on_wasm tk None t0 fut = (Inr (output fut), Some rt1)
    \<and> block_on_wasm tk (Some rt1) t0 fut = (Inr (output fut), Some rt1)"
proof (intro conjI)
  show "\<exists>cell'. block_on_all tk cell calls = (map (\<lambda>(t, fut). Inr (output fut)) calls, cell')
      \<and> (cell' = cell \<or> cell = None \<and> cell' = Some rt0)"
    by (rule block_on_all_ok [OF assms(1,2)])
  show "fst (fetch_object_blocking tk get cell t store path u) = Inr (fetch_object w store path u)"
    using block_on_ok [OF assms(1,2), of t "get store path"]
    by (auto simp: fetch_object_blocking_def fetch_object_def assms(3))
qed (use assms(4) tokio_facts(1) [OF assms(1) tokio_facts(3) [OF assms(1,5)]]
    in \<open>simp_all add: block_on_wasm_def get_or_init_def\<close>)

text \<open>
  A concrete crate: a thread is in a runtime or not, and in an asynchronous context or not; a future is
  its output.
\<close>

definition sample_blocks :: "runtime_flavor option \<times> bool \<Rightarrow> bool" where
  "sample_blocks t \<longleftrightarrow> fst t = None \<or> \<not> snd t"

definition sample_drive :: "runtime_flavor option \<times> bool \<Rightarrow> 'v \<Rightarrow> 'v outcome" where
  "sample_drive t fut = (if sample_blocks t then Inr fut else Inl ''Cannot start a runtime from within a runtime'')"

definition sample_tokio :: "(runtime_flavor option \<times> bool, runtime_flavor, unit, 'v, 'v) tokio" where
  "sample_tokio =
     \<lparr>try_current = fst, flavor = (\<lambda>h. h),
      block_in_place = (\<lambda>t f. if sample_blocks t then f t
        else if fst t = Some MultiThread then f (fst t, False)
        else Inl ''can call blocking only when running on the multi-threaded runtime''),
      handle_block_on = (\<lambda>_. sample_drive), runtime_block_on = (\<lambda>_. sample_drive),
      build_multi_thread = Inr (), build_current_thread = Inr (), new_thread = (None, False)\<rparr>"

theorem block_on_returns_witness:
  "block_on_all sample_tokio None
     [((Some CurrentThread, True), Inr [1]), ((Some MultiThread, True), Inr [2]),
      ((None, False), Inr [3] :: string + u8 list)]
   = ([Inr (Inr [1]), Inr (Inr [2]), Inr (Inr [3])], Some ())
   \<and> fst (fetch_object_blocking sample_tokio (\<lambda>_ _. Inr []) None (Some CurrentThread, True) () ''k''
       \<lparr>url_text = ''s3://b/k'', url_scheme = ''s3'', url_host = Some ''b'', url_path = ''/k''\<rparr>) = Inr (Inr [])"
proof -
  let ?u = "\<lparr>url_text = ''s3://b/k'', url_scheme = ''s3'', url_host = Some ''b'', url_path = ''/k''\<rparr>"
  let ?calls = "[((Some CurrentThread, True), Inr [1]), ((Some MultiThread, True), Inr [2]), ((None, False), Inr [3])]
    :: ((runtime_flavor option \<times> bool) \<times> (string + u8 list)) list"
  have doc: "tokio_documented sample_tokio sample_blocks (\<lambda>v. v)"
    by (auto simp: tokio_documented_def sample_tokio_def sample_drive_def sample_blocks_def
        split: runtime_flavor.split)
  have outside: "try_current sample_tokio (None, False) = None" by (simp add: sample_tokio_def)
  have built: "(None :: unit option) \<noteq> None \<or> build_multi_thread sample_tokio = Inr ()"
    "build_current_thread sample_tokio = Inr ()" by (simp_all add: sample_tokio_def)
  have get: "(\<lambda>v. v) (Inr [] :: string + u8 list) = store_get sample_world store path" for store path
    by (simp add: sample_world_def)
  note returns = block_on_returns [OF doc built(1) get built(2) outside, where calls = ?calls
      and t = "(Some CurrentThread, True)" and path = "''k''" and u = ?u and store = "()"]
  have "\<exists>cell'. block_on_all sample_tokio None ?calls = (map (\<lambda>(t, fut). Inr fut) ?calls, cell')"
    using returns by blast
  moreover have "fst (fetch_object_blocking sample_tokio (\<lambda>_ _. Inr []) None (Some CurrentThread, True) () ''k'' ?u)
      = Inr (fetch_object sample_world () ''k'' ?u)"
    using returns by blast
  moreover have "snd (block_on_all sample_tokio None ?calls) = Some ()"
    by (simp add: sample_tokio_def block_on_def block_on_shared_def runtime_def get_or_init_def
        sample_drive_def sample_blocks_def)
  ultimately show ?thesis by (auto simp: fetch_object_def sample_world_def simp del: block_on_all.simps)
qed

end
