(* ===== verification/Fixture_Generator.thy ===== *)
theory Fixture_Generator
  imports Decode Aspath Community Net_Guard
begin

text \<open>
  \<open>data/generate_fixtures.rs\<close>: the program that writes the golden dumps the tests of the decoder read.

  \<^item> The values and encoders of \<open>bgpkit-parser\<close> and the gzip encoder are parameters (\<open>elem_kit\<close>,
    \<open>encoders\<close>); a failing \<open>unwrap\<close> is \<open>None\<close>. \<open>files\<close> are the contents of the files by path; a write
    that fails would be a panic too and is left out.
  \<^item> \<open>values_documented\<close> is what the crate documents of its values. Under it the elements are built, and
    the rows the decoder makes of them are the ones \<open>bgp-core/tests/golden.rs\<close> expects.
\<close>

subsection \<open>The program\<close>

record 'x elem_kit =
  from_sequence :: "u32 list \<Rightarrow> 'x"
  plain_community :: "u16 \<Rightarrow> u16 \<Rightarrow> 'x"
  large_community :: "u32 \<Rightarrow> u32 list \<Rightarrow> 'x"
  igp_rest :: "u32 list option \<Rightarrow> 'x"
  prefix_from_str :: "string \<Rightarrow> (ip_addr \<times> u8) option"

record ('x, 'r, 'u) encoders =
  rib_new :: 'r
  rib_process :: "'r \<Rightarrow> 'x bgp_elem \<Rightarrow> 'r"
  rib_export :: "'r \<Rightarrow> u8 list"
  updates_new :: 'u
  updates_process :: "'u \<Rightarrow> 'x bgp_elem \<Rightarrow> 'u"
  updates_export :: "'u \<Rightarrow> u8 list"
  gz_compress :: "u8 list \<Rightarrow> u8 list"

text \<open>Addition of doubles: the exact sum is rounded once; an exact zero is positive unless both are negative.\<close>

fun signed_part :: "bool \<Rightarrow> nat \<Rightarrow> int" where
  "signed_part s m = (if s then - int m else int m)"

fun f64_add :: "f64 \<Rightarrow> f64 \<Rightarrow> f64" where
  "f64_add (Finite s m e) (Finite s' m' e') =
     (let e0 = min e e';
          v = signed_part s (m * 2 ^ nat (e - e0)) + signed_part s' (m' * 2 ^ nat (e' - e0))
      in if v = 0 then Finite (s \<and> s') 0 e0 else round53 (v < 0) (nat \<bar>v\<bar>) e0)"
| "f64_add (Infinite s) (Infinite s') = (if s = s' then Infinite s else NaN)"
| "f64_add (Infinite s) (Finite _ _ _) = Infinite s"
| "f64_add (Finite _ _ _) (Infinite s) = Infinite s"
| "f64_add _ _ = NaN"

definition fixture_elem ::
  "'x elem_kit \<Rightarrow> f64 \<Rightarrow> elem_type \<Rightarrow> string \<Rightarrow> u32 \<Rightarrow> string \<Rightarrow> u32 list \<Rightarrow> string option \<Rightarrow> 'x list
   \<Rightarrow> 'x bgp_elem option" where
  "fixture_elem mk ts etype peer asn prefix_text path next_hop comms =
     (let origin = (if path = [] then None else Some (last path)) in
      Option.bind (parse_ip_addr peer) (\<lambda>ip.
      Option.bind (prefix_from_str mk prefix_text) (\<lambda>pfx.
      Option.bind (case next_hop of None \<Rightarrow> Some None | Some n \<Rightarrow> map_option Some (parse_ip_addr n)) (\<lambda>nh.
        Some \<lparr>el_timestamp = ts, el_type = etype, el_peer_ip = ip, el_peer_asn = asn,
          el_prefix = pfx, el_next_hop = nh,
          el_as_path = (if path = [] then None else Some (from_sequence mk path)),
          el_communities = (if comms = [] then None else Some comms),
          el_med = Some 0, el_local_pref = Some 100, el_atomic = False, el_aggr_asn = None,
          el_rest = igp_rest mk (map_option (\<lambda>a. [a]) origin)\<rparr>))))"

definition std_comm :: "'x elem_kit \<Rightarrow> u16 \<Rightarrow> u16 \<Rightarrow> 'x" where
  "std_comm mk asn v = plain_community mk asn v"

definition large_comm :: "'x elem_kit \<Rightarrow> u32 \<Rightarrow> u32 \<Rightarrow> u32 \<Rightarrow> 'x" where
  "large_comm mk global d1 d2 = large_community mk global [d1, d2]"

definition fixture_ts :: f64 where "fixture_ts = Finite False 1751155200 0"

definition rib_elems :: "'x elem_kit \<Rightarrow> 'x bgp_elem option list" where
  "rib_elems mk =
     [fixture_elem mk fixture_ts ANNOUNCE ''192.0.2.1'' 65001 ''203.0.113.0/24''
        [65001, 64500, 64500, 64512] (Some ''192.0.2.1'') [std_comm mk 65001 100, large_comm mk 65001 1 2],
      fixture_elem mk fixture_ts ANNOUNCE ''198.51.100.7'' 65002 ''203.0.113.0/24''
        [65002, 64513, 64512] (Some ''198.51.100.7'') [std_comm mk 65002 200],
      fixture_elem mk fixture_ts ANNOUNCE ''2001:db8::1'' 65001 ''2001:db8:abcd::/48''
        [65001, 64500, 64600] (Some ''2001:db8::1'') [large_comm mk 65001 7 9]]"

definition update_elems :: "'x elem_kit \<Rightarrow> 'x bgp_elem option list" where
  "update_elems mk =
     [fixture_elem mk fixture_ts ANNOUNCE ''192.0.2.1'' 65001 ''203.0.113.0/24''
        [65001, 64500, 64512] (Some ''192.0.2.1'') [std_comm mk 65001 100, large_comm mk 65001 1 2],
      fixture_elem mk (f64_add fixture_ts (Finite False 1 0)) ANNOUNCE ''2001:db8::1'' 65001
        ''2001:db8:abcd::/48'' [65001, 64600] (Some ''2001:db8::1'') [],
      fixture_elem mk (f64_add fixture_ts (Finite False 2 0)) WITHDRAW ''192.0.2.1'' 65001
        ''203.0.113.0/24'' [] None []]"

type_synonym files = "string \<rightharpoonup> u8 list"

definition generate_fixtures ::
  "'x elem_kit \<Rightarrow> ('x, 'r, 'u) encoders \<Rightarrow> files \<Rightarrow> files option" where
  "generate_fixtures mk enc fs =
     Option.bind (those (rib_elems mk)) (\<lambda>rib.
       let fs1 = fs(''data/rib.mrt'' \<mapsto> rib_export enc (foldl (rib_process enc) (rib_new enc) rib))
       in Option.bind (those (update_elems mk)) (\<lambda>upd.
         let upd_bytes = updates_export enc (foldl (updates_process enc) (updates_new enc) upd);
             fs2 = fs1(''data/updates.mrt'' \<mapsto> upd_bytes);
             fs3 = fs2(''data/updates.mrt.gz'' \<mapsto> gz_compress enc upd_bytes)
         in Option.bind (fs3 ''data/rib.mrt'') (\<lambda>rib_bytes.
           let cut = length rib_bytes - 8
           in Some (fs3(''data/truncated.mrt'' \<mapsto> take cut rib_bytes)))))"

subsection \<open>What the crate documents\<close>

definition addr_bits :: "ip_addr \<Rightarrow> nat" where
  "addr_bits ip = (case ip of V4 _ \<Rightarrow> 32 | V6 _ \<Rightarrow> 128)"

definition values_documented :: "'x elem_kit \<Rightarrow> ('x, 'e) bgpkit \<Rightarrow> bool" where
  "values_documented mk kit \<longleftrightarrow>
     (\<forall>p. to_u32_vec_opt kit (from_sequence mk p) False = Some p)
     \<and> (\<forall>a v. community_to_string kit (plain_community mk a v) = show_u32 (ucast a) @ '':'' @ show_u32 (ucast v))
     \<and> (\<forall>g d1 d2. community_to_string kit (large_community mk g [d1, d2])
          = show_u32 g @ '':'' @ show_u32 d1 @ '':'' @ show_u32 d2)
     \<and> (\<forall>el origin. el_rest el = igp_rest mk (map_option (\<lambda>asn. [asn]) origin) \<longrightarrow> get_origin_asn_opt kit el = origin)
     \<and> (\<forall>s a l. parse_ip_addr s = Some a \<longrightarrow> l \<le> addr_bits a \<longrightarrow>
          prefix_from_str mk (s @ ''/'' @ dec l) = Some (a, of_nat l))"

subsection \<open>The addresses\<close>

lemma digit_chars:
  "digit_char 0 = CHR ''0''" "digit_char (Suc 0) = CHR ''1''" "digit_char 2 = CHR ''2''" "digit_char 3 = CHR ''3''"
  "digit_char 4 = CHR ''4''" "digit_char 5 = CHR ''5''" "digit_char 6 = CHR ''6''" "digit_char 7 = CHR ''7''"
  "digit_char 8 = CHR ''8''" "digit_char 9 = CHR ''9''"
  by code_simp+

lemma bytes_u32:
  "to_be_bytes 4 (a :: u32) = [ucast (drop_bit 24 a), ucast (drop_bit 16 a), ucast (drop_bit 8 a), ucast a]"
  by (simp add: to_be_bytes_def to_le_bytes_def upt_rec)

lemma bytes_u16: "to_be_bytes 2 (a :: u16) = [ucast (drop_bit 8 a), ucast a]"
  by (simp add: to_be_bytes_def to_le_bytes_def upt_rec)

lemma fixture_ipv4:
  "parse_ip_addr ''192.0.2.1'' = Some (V4 0xC0000201)"
  "parse_ip_addr ''198.51.100.7'' = Some (V4 0xC6336407)"
  "parse_ip_addr ''203.0.113.0'' = Some (V4 0xCB007100)"
  using parse_show_ipv4 [of "0xC0000201"] parse_show_ipv4 [of "0xC6336407"] parse_show_ipv4 [of "0xCB007100"]
  by (simp_all add: show_ipv4_def bytes_u32 dec_small digit_chars)

lemma fixture_groups:
  "read_groups 8 0 ''2001:db8::1'' = ([0x2001, 0xdb8], False, ''::1'')"
  "read_groups 5 0 ''1'' = ([1], False, [])"
  "read_groups 8 0 ''2001:db8:abcd::'' = ([0x2001, 0xdb8, 0xabcd], False, ''::'')"
  "read_groups 4 0 [] = ([], False, [])"
  by (simp_all add: read_groups.simps read_separator_def read_ipv4_addr_def four read_number_def to_digit_def)

lemma fixture_ipv6:
  "parse_ip_addr ''2001:db8::1'' = Some (V6 0x20010DB8000000000000000000000001)"
  "parse_ip_addr ''2001:db8:abcd::'' = Some (V6 0x20010DB8ABCD00000000000000000000)"
proof -
  have v4: "read_ipv4_addr (CHR ''2'' # CHR ''0'' # CHR ''0'' # CHR ''1'' # CHR '':'' # s) = None" for s
    by (simp add: read_ipv4_addr_def four read_separator_def read_number_def to_digit_def)
  have "segments_addr [0x2001, 0xdb8, 0, 0, 0, 0, 0, 1] = 0x20010DB8000000000000000000000001"
    "segments_addr [0x2001, 0xdb8, 0xabcd, 0, 0, 0, 0, 0] = 0x20010DB8ABCD00000000000000000000"
    by (simp_all add: segments_addr_def bytes_u16 from_be_bytes_def from_le_bytes_def)
  moreover have "replicate 5 (0 :: u16) = [0, 0, 0, 0, 0]" by (simp add: numeral_eq_Suc)
  ultimately have "read_ipv6_addr ''2001:db8::1'' = Some (0x20010DB8000000000000000000000001, [])"
    "read_ipv6_addr ''2001:db8:abcd::'' = Some (0x20010DB8ABCD00000000000000000000, [])"
    by (simp_all add: read_ipv6_addr_def fixture_groups numeral_2_eq_2)
  then show "parse_ip_addr ''2001:db8::1'' = Some (V6 0x20010DB8000000000000000000000001)"
    "parse_ip_addr ''2001:db8:abcd::'' = Some (V6 0x20010DB8ABCD00000000000000000000)"
    by (simp_all add: parse_ip_addr_def read_ip_addr_def v4)
qed

lemma fixture_shown:
  "show_u32 65001 = ''65001''" "show_u32 65002 = ''65002''" "show_u32 100 = ''100''" "show_u32 200 = ''200''"
  "show_u32 1 = ''1''" "show_u32 2 = ''2''" "show_u32 7 = ''7''" "show_u32 9 = ''9''"
  by (simp_all add: show_u32_def dec.simps digit_chars)

lemma round53_small:
  assumes "m < 2 ^ 53"
  shows "round53 s m 0 = Finite s m 0"
proof -
  have "bitlen m \<le> 53"
  proof (cases "m = 0")
    case True
    then show ?thesis by (simp add: bitlen.simps [of 0])
  next
    case False
    with bitlen_bounds(2) [of m] assms have "2 ^ bitlen m < (2 ^ 54 :: nat)" by simp
    then have "bitlen m < 54" by (rule power_less_imp_less_exp [rotated]) simp
    then show ?thesis by simp
  qed
  then have "round_shift m 0 = 0" "int (bitlen m) \<le> 1024" by (simp_all add: round_shift_def)
  then show ?thesis by (simp add: round53_def div_even_def)
qed

lemma fixture_times:
  "f64_add fixture_ts (Finite False (Suc 0) 0) = Finite False 1751155201 0"
  "f64_add fixture_ts (Finite False 2 0) = Finite False 1751155202 0"
  by (simp_all add: fixture_ts_def round53_small)

lemma fixture_micros:
  "ts_to_micros fixture_ts = 1751155200000000"
  "ts_to_micros (Finite False 1751155201 0) = 1751155201000000"
  "ts_to_micros (Finite False 1751155202 0) = 1751155202000000"
  using ts_to_micros_near [of 1751155200 0 1751155200 0] ts_to_micros_near [of 1751155201 0 1751155201 0]
    ts_to_micros_near [of 1751155202 0 1751155202 0]
  by (simp_all add: fixture_ts_def)

text \<open>A row of the fixtures, by what distinguishes it; \<open>[]\<close> stands for an absent list.\<close>

definition golden_row ::
  "i64 \<Rightarrow> msg_type \<Rightarrow> ip_addr \<Rightarrow> u32 \<Rightarrow> ip_addr \<times> u16 \<Rightarrow> u32 list \<Rightarrow> string list \<Rightarrow> mrt_row" where
  "golden_row us ty peer asn pfx path comms =
     default_row\<lparr>r_timestamp_us := us, r_msg_type := Some ty, r_peer_ip := Some peer, r_peer_asn := Some asn,
       r_prefix := Some pfx, r_as_path := (if path = [] then None else Some path), r_origin_asn := origin_asn path,
       r_next_hop := (if ty = Announce then Some peer else None),
       r_communities := (if comms = [] then None else Some comms), r_med := Some 0, r_local_pref := Some 100\<rparr>"

text \<open>The rows the golden tests look for.\<close>

definition golden_rib :: "mrt_row list" where
  "golden_rib =
     [golden_row 1751155200000000 Announce (V4 0xC0000201) 65001 (V4 0xCB007100, 24)
        [65001, 64500, 64500, 64512] [''65001:100'', ''65001:1:2''],
      golden_row 1751155200000000 Announce (V4 0xC6336407) 65002 (V4 0xCB007100, 24)
        [65002, 64513, 64512] [''65002:200''],
      golden_row 1751155200000000 Announce (V6 0x20010DB8000000000000000000000001) 65001
        (V6 0x20010DB8ABCD00000000000000000000, 48) [65001, 64500, 64600] [''65001:7:9'']]"

definition golden_updates :: "mrt_row list" where
  "golden_updates =
     [golden_row 1751155200000000 Announce (V4 0xC0000201) 65001 (V4 0xCB007100, 24)
        [65001, 64500, 64512] [''65001:100'', ''65001:1:2''],
      golden_row 1751155201000000 Announce (V6 0x20010DB8000000000000000000000001) 65001
        (V6 0x20010DB8ABCD00000000000000000000, 48) [65001, 64600] [],
      golden_row 1751155202000000 Withdraw (V4 0xC0000201) 65001 (V4 0xCB007100, 24) [] []]"

subsection \<open>The rows of the elements\<close>

lemma those_map: "map_option (map f) (those xs) = those (map (map_option f) xs)"
proof (induction xs)
  case (Cons x xs)
  then show ?case by (cases x) (simp_all add: Cons [symmetric] option.map_comp comp_def)
qed simp

lemma fixture_prefixes:
  assumes "values_documented mk kit"
  shows "prefix_from_str mk ''203.0.113.0/24'' = Some (V4 0xCB007100, 24)"
    "prefix_from_str mk ''2001:db8:abcd::/48'' = Some (V6 0x20010DB8ABCD00000000000000000000, 48)"
proof -
  have prefix: "parse_ip_addr s = Some a \<Longrightarrow> l \<le> addr_bits a \<Longrightarrow>
      prefix_from_str mk (s @ ''/'' @ dec l) = Some (a, of_nat l)" for s a l
    using assms unfolding values_documented_def by blast
  show "prefix_from_str mk ''203.0.113.0/24'' = Some (V4 0xCB007100, 24)"
    "prefix_from_str mk ''2001:db8:abcd::/48'' = Some (V6 0x20010DB8ABCD00000000000000000000, 48)"
    using prefix [OF fixture_ipv4(3), of 24] prefix [OF fixture_ipv6(2), of 48]
    by (simp_all add: addr_bits_def dec.simps digit_chars)
qed

lemma documented_strings:
  assumes "values_documented mk kit"
  shows "community_to_string kit (plain_community mk 65001 100) = ''65001:100''"
    "community_to_string kit (plain_community mk 65002 200) = ''65002:200''"
    "community_to_string kit (large_community mk 65001 [1, 2]) = ''65001:1:2''"
    "community_to_string kit (large_community mk 65001 [7, 9]) = ''65001:7:9''"
proof -
  have plain: "community_to_string kit (plain_community mk a v) = show_u32 (ucast a) @ '':'' @ show_u32 (ucast v)"
    for a v using assms unfolding values_documented_def by blast
  have large: "community_to_string kit (large_community mk g [d1, d2])
      = show_u32 g @ '':'' @ show_u32 d1 @ '':'' @ show_u32 d2" for g d1 d2
    using assms unfolding values_documented_def by blast
  show "community_to_string kit (plain_community mk 65001 100) = ''65001:100''"
    "community_to_string kit (plain_community mk 65002 200) = ''65002:200''"
    "community_to_string kit (large_community mk 65001 [1, 2]) = ''65001:1:2''"
    "community_to_string kit (large_community mk 65001 [7, 9]) = ''65001:7:9''"
    by (simp_all add: plain large fixture_shown)
qed

lemma fixture_row:
  assumes "values_documented mk kit"
    and "parse_ip_addr peer = Some ip" "prefix_from_str mk pfx = Some (a, l)"
    and "nh = (if ty = ANNOUNCE then Some peer else None)"
  shows "map_option (\<lambda>el. row_from_elem kit el None) (fixture_elem mk ts ty peer asn pfx path nh comms)
    = Some (golden_row (ts_to_micros ts) (case ty of ANNOUNCE \<Rightarrow> Announce | WITHDRAW \<Rightarrow> Withdraw) ip asn (a, ucast l)
        path (map (community_to_string kit) comms))"
proof -
  have path: "to_u32_vec_opt kit (from_sequence mk p) False = Some p" for p
    using assms(1) unfolding values_documented_def by blast
  have origin: "el_rest el = igp_rest mk (map_option (\<lambda>asn. [asn]) o1) \<Longrightarrow> get_origin_asn_opt kit el = o1" for el o1
    using assms(1) unfolding values_documented_def by blast
  show ?thesis
    using assms(2-4)
    by (cases ty) (auto simp: fixture_elem_def row_from_elem_def golden_row_def default_row_def path origin
        origin_asn_def Let_def)
qed

subsection \<open>Properties\<close>

text \<open>
  C29: the generator and the decoder agree on the golden dumps: for a parser crate whose values behave
  as documented no \<open>unwrap\<close> of the generator fails, the rows the decoder makes of its elements are the
  ones the golden tests look for (times, peers, prefixes, paths in order, origins, next hops, community
  strings; a withdrawal without path and next hop), the path helpers give the tests' figures on them,
  and the truncated dump is the RIB without its last eight bytes, the archive that of the update dump.
\<close>

theorem golden_rows:
  assumes "values_documented mk kit"
  shows "map_option (map (\<lambda>el. row_from_elem kit el None)) (those (rib_elems mk)) = Some golden_rib
    \<and> map_option (map (\<lambda>el. row_from_elem kit el None)) (those (update_elems mk)) = Some golden_updates
    \<and> (case r_as_path (hd golden_rib) of
         None \<Rightarrow> False
       | Some path \<Rightarrow> path_length path = 4 \<and> origin_asn path = Some 64512 \<and> as_path_prepends path = 1
           \<and> path_contains path 64500 \<and> \<not> path_contains path 99999)
    \<and> (\<exists>rib upd. those (rib_elems mk) = Some rib \<and> those (update_elems mk) = Some upd
        \<and> generate_fixtures mk enc fs =
            (let rib_bytes = rib_export enc (foldl (rib_process enc) (rib_new enc) rib);
                 upd_bytes = updates_export enc (foldl (updates_process enc) (updates_new enc) upd)
             in Some (fs(''data/rib.mrt'' \<mapsto> rib_bytes, ''data/updates.mrt'' \<mapsto> upd_bytes,
                  ''data/updates.mrt.gz'' \<mapsto> gz_compress enc upd_bytes,
                  ''data/truncated.mrt'' \<mapsto> take (length rib_bytes - 8) rib_bytes))))"
proof (intro conjI)
  note row = fixture_row [OF assms] and prefixes = fixture_prefixes [OF assms]
  note parts = fixture_ipv4 fixture_ipv6 fixture_times fixture_micros std_comm_def large_comm_def
  show rib: "map_option (map (\<lambda>el. row_from_elem kit el None)) (those (rib_elems mk)) = Some golden_rib"
    unfolding those_map rib_elems_def golden_rib_def
    by (simp add: row prefixes parts documented_strings [OF assms])
  show upd: "map_option (map (\<lambda>el. row_from_elem kit el None)) (those (update_elems mk)) = Some golden_updates"
    unfolding those_map update_elems_def golden_updates_def
    by (simp add: row prefixes parts documented_strings [OF assms])
  from rib upd obtain es us where "those (rib_elems mk) = Some es" "those (update_elems mk) = Some us" by auto
  then show "\<exists>rib upd. those (rib_elems mk) = Some rib \<and> those (update_elems mk) = Some upd
      \<and> generate_fixtures mk enc fs =
          (let rib_bytes = rib_export enc (foldl (rib_process enc) (rib_new enc) rib);
               upd_bytes = updates_export enc (foldl (updates_process enc) (updates_new enc) upd)
           in Some (fs(''data/rib.mrt'' \<mapsto> rib_bytes, ''data/updates.mrt'' \<mapsto> upd_bytes,
                ''data/updates.mrt.gz'' \<mapsto> gz_compress enc upd_bytes,
                ''data/truncated.mrt'' \<mapsto> take (length rib_bytes - 8) rib_bytes)))"
    by (simp add: generate_fixtures_def Let_def)
qed (simp add: golden_rib_def golden_row_def default_row_def path_length_def origin_asn_def as_path_prepends_def
    path_contains_def)

text \<open>A crate that keeps every value as it was built; a prefix is split at its last slash.\<close>

datatype sample_value =
    SamplePath "u32 list" | SamplePlain u16 u16 | SampleLarge u32 "u32 list" | SampleRest "u32 list option"

fun sample_show :: "sample_value \<Rightarrow> string" where
  "sample_show (SamplePlain a v) = show_u32 (ucast a) @ '':'' @ show_u32 (ucast v)"
| "sample_show (SampleLarge g ds) = join '':'' (map show_u32 (g # ds))"
| "sample_show _ = []"

definition sample_prefix :: "string \<Rightarrow> (ip_addr \<times> u8) option" where
  "sample_prefix s =
     (case parse_ip_addr (rev (tl (dropWhile (\<lambda>c. c \<noteq> CHR ''/'') (rev s)))) of
        None \<Rightarrow> None
      | Some a \<Rightarrow> map_option (\<lambda>l. (a, of_nat l))
          (parse_unsigned 256 (rev (takeWhile (\<lambda>c. c \<noteq> CHR ''/'') (rev s)))))"

definition sample_elem_kit :: "sample_value elem_kit" where
  "sample_elem_kit =
     \<lparr>from_sequence = SamplePath, plain_community = SamplePlain, large_community = SampleLarge,
      igp_rest = SampleRest, prefix_from_str = sample_prefix\<rparr>"

definition sample_values_kit :: "(sample_value, unit) bgpkit" where
  "sample_values_kit =
     \<lparr>parse_mrt_record = Ret (Inl EofExpected), elementor_new = (), set_peer_table = (\<lambda>e _. e),
      record_to_elems = (\<lambda>e _. ([], e)),
      to_u32_vec_opt = (\<lambda>v _. case v of SamplePath p \<Rightarrow> Some p | _ \<Rightarrow> None),
      get_origin_asn_opt = (\<lambda>el. case el_rest el of SampleRest (Some [a]) \<Rightarrow> Some a | _ \<Rightarrow> None),
      community_to_string = sample_show, show_parser_error = (\<lambda>_. [])\<rparr>"

lemma sample_prefix_split: "sample_prefix (s @ CHR ''/'' # dec l) =
    (case parse_ip_addr s of None \<Rightarrow> None | Some a \<Rightarrow> map_option (\<lambda>l. (a, of_nat l)) (parse_unsigned 256 (dec l)))"
proof -
  have free: "c \<in> set (rev (dec l)) \<Longrightarrow> c \<noteq> CHR ''/''" for c
    using dec_digits [of l] by (auto simp: is_digit_def)
  have "takeWhile (\<lambda>c. c \<noteq> CHR ''/'') (rev (dec l) @ CHR ''/'' # rev s) = rev (dec l)"
    by (subst takeWhile_append2) (use free in \<open>auto\<close>)
  moreover have "dropWhile (\<lambda>c. c \<noteq> CHR ''/'') (rev (dec l) @ CHR ''/'' # rev s) = CHR ''/'' # rev s"
    by (subst dropWhile_append2) (use free in \<open>auto\<close>)
  moreover have "rev (s @ CHR ''/'' # dec l) = rev (dec l) @ CHR ''/'' # rev s" by simp
  ultimately show ?thesis by (simp only: sample_prefix_def list.case list.sel rev_rev_ident)
qed

theorem golden_rows_witness:
  "map_option (map (\<lambda>el. row_from_elem sample_values_kit el None)) (those (update_elems sample_elem_kit))
     = Some golden_updates
   \<and> (\<exists>fs'. generate_fixtures sample_elem_kit
         \<lparr>rib_new = [], rib_process = (\<lambda>bs _. bs @ [1, 2, 3, 4]), rib_export = (\<lambda>bs. bs),
          updates_new = (), updates_process = (\<lambda>u _. u), updates_export = (\<lambda>_. [7]),
          gz_compress = (\<lambda>bs. 0x1f # 0x8b # bs)\<rparr> Map.empty = Some fs'
       \<and> fs' ''data/updates.mrt.gz'' = Some [0x1f, 0x8b, 7])"
proof -
  let ?enc = "\<lparr>rib_new = [], rib_process = (\<lambda>bs _. bs @ [1, 2, 3, 4]), rib_export = (\<lambda>bs. bs),
      updates_new = (), updates_process = (\<lambda>u _. u), updates_export = (\<lambda>_. [7]),
      gz_compress = (\<lambda>bs. 0x1f # 0x8b # bs)\<rparr>"
  have "values_documented sample_elem_kit sample_values_kit"
    unfolding values_documented_def
  proof (intro conjI allI impI)
    fix s a l
    assume "parse_ip_addr s = Some a" "l \<le> addr_bits a"
    moreover from this have "l < 256" by (simp add: addr_bits_def split: ip_addr.splits)
    ultimately show "prefix_from_str sample_elem_kit (s @ ''/'' @ dec l) = Some (a, of_nat l)"
      by (simp add: sample_elem_kit_def sample_prefix_split parse_unsigned_dec)
  qed (simp_all add: sample_elem_kit_def sample_values_kit_def split: option.splits)
  note golden = golden_rows [OF this, of ?enc Map.empty]
  then obtain fs' where "generate_fixtures sample_elem_kit ?enc Map.empty = Some fs'"
    "fs' ''data/updates.mrt.gz'' = Some [0x1f, 0x8b, 7]" by (auto simp: Let_def)
  with golden show ?thesis by blast
qed

end
