(* ===== verification/Resume_Losses.thy ===== *)
theory Resume_Losses
  imports Record_Loops
begin

text \<open>
  What a resumed scan of \<open>bgp-worker/src/reader.rs\<close> does to data outside \<open>resume_safe\<close>, for any parser and
  any sources: behind a corrupt record it never ends, behind a torn source it loses the start of the
  next one, and a failure right behind the checkpoint goes unreported.
\<close>

subsection \<open>Checkpoints over HTTP\<close>

lemma producer_new_at:
  "producer_new kit sch k st srcs = at_source (producer_new kit sch k st srcs) 0 (decoder_new kit) 0 None"
  by (simp add: producer_new_def at_source_def)

lemma resume_at:
  assumes "length srcs < 2 ^ 64" "idx q < length srcs"
  shows "http_state (producer_new kit sch k st srcs) (Some (encode_resume q))
    = at_source (producer_new kit sch k st srcs) (idx q) (decoder_new kit) 0
        (if 0 < offset q then Some (offset q) else None)"
proof -
  from assms have "idx q < 2 ^ 64" by simp
  with assms(2) show ?thesis
    unfolding http_state_def option.case resume_bytes [OF \<open>idx q < 2 ^ 64\<close>] Let_def
    by (simp add: min_def) (simp add: at_source_def producer_new_def)
qed

text \<open>A consumer that always gets a batch never sees the end.\<close>

lemma never_drains:
  assumes "\<And>x. I x \<Longrightarrow> \<exists>now y. pull x = Some (Inr now, y) \<and> now \<noteq> [] \<and> I y"
  shows "drains pull x bs e \<Longrightarrow> I x \<Longrightarrow> False"
proof (induction rule: drains.induct)
  case (drain_end p p')
  with assms [of p] show ?case by auto
next
  case (drain_fail p err p')
  with assms [of p] show ?case by auto
next
  case (drain_batch p now p' bs e)
  with assms [of p] show ?case by auto
qed

subsection \<open>A corrupt record\<close>

text \<open>
  The source opens as \<open>r0\<close> and has the records \<open>cs\<close> up to \<open>ra\<close>, then a corrupt record up to \<open>rb\<close>, then
  records whose rows fill a batch. \<open>stuck_at t\<close>: the checkpoint \<open>t\<close> lies at the end of one of the first
  records or anywhere behind the corrupt one.
\<close>

definition stuck_at ::
  "('x, 'e) bgpkit \<Rightarrow> stream \<Rightarrow> mrt_row list list \<Rightarrow> stream \<Rightarrow> 'e decoder \<Rightarrow> stream \<Rightarrow> u64 \<Rightarrow> bool" where
  "stuck_at kit r0 cs ra da rb t \<longleftrightarrow>
     stream_pos rb \<le> t \<or>
     (\<exists>cs1 cs2 r1 d1. cs = cs1 @ cs2 \<and> records_read kit r0 (decoder_new kit) cs1 r1 d1
        \<and> records_read kit r1 d1 cs2 ra da \<and> t = stream_pos r1)"

lemma pull_corrupt:
  assumes "\<not> strict p" "next_record (rt_kit rt) stream_read ra = (Inl err, rb)" "is_recoverable err"
    and "records_read (rt_kit rt) rb da rest rc dc" "target \<le> length (concat rest)" "length pending < target"
    and "counted N rb" "N < 2 ^ 64"
  shows "\<exists>now r' d'. pull_loop rt target (at_stream p i ra da sk) pending = Some (Inr now, at_stream p i r' d' None)
    \<and> now \<noteq> [] \<and> stream_pos rb \<le> stream_pos r'"
proof -
  define row where "row = (if past sk (stream_pos rb)
      then [error_row (err_text rt (label (sources p ! i)) err)] else [])"
  have step: "pull_loop rt target (at_stream p i ra da sk) pending =
      (if target \<le> length (pending @ row) then Some (Inr (pending @ row), at_stream p i rb da None)
       else pull_loop rt target (at_stream p i rb da None) (pending @ row))"
    unfolding row_def by (subst pull_loop_unfold) (simp add: step_recover [OF assms(2,1,3)])
  show ?thesis
  proof (cases "target \<le> length (pending @ row)")
    case True
    with assms(6) show ?thesis
      by (intro exI [of _ "pending @ row"] exI [of _ rb] exI [of _ da]) (auto simp: step)
  next
    case False
    from pull_fills [OF assms(4), of "pending @ row" target p i] False assms(5) obtain cs1 r1 d1 where
      "concat cs1 \<noteq> []" "records_read (rt_kit rt) rb da cs1 r1 d1"
      "pull_loop rt target (at_stream p i rb da None) (pending @ row)
        = Some (Inr ((pending @ row) @ concat cs1), at_stream p i r1 d1 None)" by auto
    moreover from records_counted [OF this(2) assms(7,8)] have "stream_pos rb \<le> stream_pos r1" ..
    ultimately show ?thesis using False
      by (intro exI [of _ "(pending @ row) @ concat cs1"] exI [of _ r1] exI [of _ d1]) (auto simp: step)
  qed
qed

lemma pull_stuck:
  assumes "parser_progress (rt_kit rt)" "\<not> strict p" "i < length (sources p)"
    and "open_stream (rt_world rt) (sources p ! i) = Inr r0" "length (stream_bytes r0) < 2 ^ 64"
    and "records_read (rt_kit rt) r0 (decoder_new (rt_kit rt)) cs ra da"
    and "next_record (rt_kit rt) stream_read ra = (Inl err, rb)" "is_recoverable err"
    and "records_read (rt_kit rt) rb da rest rc dc" "0 < target" "target \<le> length (concat rest)"
    and "stuck_at (rt_kit rt) r0 cs ra da rb t"
  shows "\<exists>now r' d'. pull_loop rt target (at_source p i d off (if 0 < t then Some t else None)) []
      = Some (Inr now, at_stream p i r' d' None)
    \<and> now \<noteq> [] \<and> stuck_at (rt_kit rt) r0 cs ra da rb (stream_pos r')"
proof -
  note c0 = open_stream_counted [OF assms(4)]
  have ca: "counted (length (stream_bytes r0)) ra" using records_counted [OF assms(6) c0 assms(5)] ..
  have pos: "stream_pos ra < stream_pos rb"
    using next_record_advances [OF assms(1,7) ca assms(5)] assms(8) by simp
  have cb: "counted (length (stream_bytes r0)) rb" using next_record_counted [OF assms(7) ca assms(5)] by simp
  note corrupt = pull_corrupt [OF assms(2,7-9,11) _ cb assms(5)]
  note open_it = pull_open [OF assms(3,4)]
  have behind: "\<exists>now r' d'. pull_loop rt target (at_stream p i ra da sk) pending = Some (Inr now, at_stream p i r' d' None)
      \<and> now \<noteq> [] \<and> stuck_at (rt_kit rt) r0 cs ra da rb (stream_pos r')" if "length pending < target" for sk pending
    using corrupt [OF that, of i sk] by (auto simp: stuck_at_def)
  show ?thesis
  proof (cases "stream_pos rb \<le> t")
    case True
    with pos have "0 < t" "stream_pos ra \<le> t" by (auto simp: word_gt_0 dest: order.trans less_imp_le)
    with behind [of "[]" "Some t"] assms(10) show ?thesis
      by (simp add: open_it pull_skips [OF assms(6) c0 assms(5)])
  next
    case False
    with assms(12) obtain cs1 cs2 r1 d1 where split: "cs = cs1 @ cs2"
      "records_read (rt_kit rt) r0 (decoder_new (rt_kit rt)) cs1 r1 d1" "records_read (rt_kit rt) r1 d1 cs2 ra da"
      "t = stream_pos r1" by (auto simp: stuck_at_def)
    have c1: "counted (length (stream_bytes r0)) r1" using records_counted [OF split(2) c0 assms(5)] ..
    have clean: "\<exists>now r' d'. pull_loop rt target (at_stream p i r1 d1 None) [] = Some (Inr now, at_stream p i r' d' None)
      \<and> now \<noteq> [] \<and> stuck_at (rt_kit rt) r0 cs ra da rb (stream_pos r')"
    proof (cases "length (concat cs2) < target")
      case True
      with behind [of "concat cs2" None] show ?thesis by (simp add: pull_records [OF split(3)])
    next
      case False
      with assms(10) have "length ([] :: mrt_row list) < target"
        "target \<le> length ([] :: mrt_row list) + length (concat cs2)" by simp_all
      from pull_fills [OF split(3) this] obtain ca cb r2 d2 where
        "cs2 = ca @ cb" "concat ca \<noteq> []" "records_read (rt_kit rt) r1 d1 ca r2 d2"
        "records_read (rt_kit rt) r2 d2 cb ra da"
        "pull_loop rt target (at_stream p i r1 d1 None) [] = Some (Inr ([] @ concat ca), at_stream p i r2 d2 None)" by blast
      moreover from this have "stuck_at (rt_kit rt) r0 cs ra da rb (stream_pos r2)"
        unfolding stuck_at_def using split(1) records_append [OF split(2)]
        by (intro disjI2 exI [of _ "cs1 @ ca"] exI [of _ cb] exI [of _ r2] exI [of _ d2]) auto
      ultimately show ?thesis by blast
    qed
    show ?thesis
    proof (cases "t = 0")
      case True
      with records_positive [OF assms(1) split(2) c0 assms(5)] split(4) have "cs1 = []" by (metis word_not_simps(1))
      with split(2) have "r1 = r0" "d1 = decoder_new (rt_kit rt)" by (auto elim: records_noneE)
      with clean True show ?thesis by (simp add: open_it)
    next
      case pos: False
      have skip: "pull_loop rt target (at_source p i d off (if 0 < t then Some t else None)) []
          = pull_loop rt target (at_stream p i r1 d1 (Some t)) []"
        using pos split(4) by (simp add: open_it word_gt_0 pull_skips [OF split(2) c0 assms(5)])
      show ?thesis
      proof (cases "cs2 = []")
        case True
        with split(3) have "r1 = ra" "d1 = da" by (auto elim: records_noneE)
        with behind [of "[]" "Some t"] assms(10) show ?thesis by (simp add: skip)
      next
        case False
        from clean show ?thesis
          by (simp add: skip) (simp add: split(4) pull_at_checkpoint [OF assms(1) split(3) c1 assms(5) False])
      qed
    qed
  qed
qed

subsection \<open>A torn source\<close>

text \<open>No record that starts here ends by the offset \<open>t\<close>.\<close>

definition beyond :: "('x, 'e) bgpkit \<Rightarrow> stream \<Rightarrow> u64 \<Rightarrow> bool" where
  "beyond kit r t \<longleftrightarrow> (\<forall>rec r'. next_record kit stream_read r = (Inr (Some rec), r') \<longrightarrow> t < stream_pos r')"

lemma pull_beyond:
  assumes "records_read (rt_kit rt) r d cs r' d'" "beyond (rt_kit rt) r t" "cs \<noteq> []"
  shows "pull_loop rt target (at_stream p i r d (Some t)) pending = pull_loop rt target (at_stream p i r d None) pending"
  using assms(1)
proof cases
  case (read_one rec r1 cs')
  with assms(2) show ?thesis
    by (simp add: beyond_def pull_loop_unfold [of rt target "at_stream p i r d sk" for sk] step_record past_def)
qed (use assms(3) in simp)

lemma next_beyond:
  assumes "parser_progress kit" "counted N r" "N < 2 ^ 64"
  shows "beyond kit r (stream_pos r)"
  using next_record_advances [OF assms(1) _ assms(2,3)] by (simp add: beyond_def)

text \<open>The last source, resumed behind some of its records, yields the others.\<close>

lemma pull_done:
  "length (sources p) \<le> i \<Longrightarrow>
    pull_loop rt target (at_source p i d off sk) pending = Some (Inr pending, (at_source p i d off sk)\<lparr>done_flag := True\<rparr>)"
  by (subst pull_loop_unfold) (simp add: step_end)

lemma pull_last:
  assumes "records_read (rt_kit rt) r d cs r' d'" "next_record (rt_kit rt) stream_read r' = (Inr None, r'')"
    and "Suc i = length (sources p)" "length (concat cs) < target"
  shows "pull_loop rt target (at_stream p i r d None) []
    = Some (Inr (concat cs), (at_source p (Suc i) d' (stream_pos r') None)\<lparr>done_flag := True\<rparr>)"
proof -
  have "pull_loop rt target (at_stream p i r' d' None) (concat cs)
      = pull_loop rt target (at_source p (Suc i) d' (stream_pos r') None) (concat cs)"
    using assms(4) by (subst pull_loop_unfold) (simp add: step_eof [OF assms(2)])
  then show ?thesis using assms(3,4) by (simp add: pull_records [OF assms(1)] pull_done)
qed

lemma http_done:
  assumes "length srcs < 2 ^ 64" "idx q = length srcs"
  shows "drains http_pull (rt, target, producer_new kit sch k st srcs, Some (encode_resume q)) [] None"
proof (rule http_end)
  let ?p = "http_state (producer_new kit sch k st srcs) (Some (encode_resume q))"
  from assms have "idx q < 2 ^ 64" by simp
  from resume_bytes [OF this, of "producer_new kit sch k st srcs"] assms(2) have "done_flag ?p"
    by (simp add: http_state_def Let_def)
  then show "pull_rows rt target ?p = Some (Inr [], ?p)" by (simp add: pull_rows_def)
qed

lemma http_tail:
  fixes rt :: "('s, 'x, 'e) rt" and q :: "('s, 'e) producer"
  assumes "parser_progress (rt_kit rt)" "0 < target" "length srcs < 2 ^ 64" "Suc i = length srcs"
    and "open_stream (rt_world rt) (srcs ! i) = Inr r0" "length (stream_bytes r0) < 2 ^ 64"
    and "next_record (rt_kit rt) stream_read r' = (Inr None, r'')"
  shows "records_read (rt_kit rt) r0 (decoder_new (rt_kit rt)) skipped r1 d1 \<Longrightarrow>
    records_read (rt_kit rt) r1 d1 cs r' d' \<Longrightarrow> idx q = i \<Longrightarrow> stream_pos r1 \<le> offset q \<Longrightarrow> 0 < offset q \<Longrightarrow>
    beyond (rt_kit rt) r1 (offset q) \<Longrightarrow>
    \<exists>bs. drains http_pull (rt, target, producer_new (rt_kit rt) sch k st srcs, Some (encode_resume q)) bs None
      \<and> concat bs = concat cs"
proof (induction "length cs" arbitrary: cs skipped r1 d1 q rule: less_induct)
  case less
  let ?p = "producer_new (rt_kit rt) sch k st srcs"
  note c0 = open_stream_counted [OF assms(5)]
  have "pull_rows rt target (http_state ?p (Some (encode_resume q)))
      = pull_loop rt target (at_stream ?p i r1 d1 (Some (offset q))) []"
    using resume_at [OF assms(3), of q "rt_kit rt" sch k st] assms(4,5) less.prems(3,5)
      pull_skips [OF less.prems(1) c0 assms(6) less.prems(4)]
    by (simp add: pull_rows_def pull_open)
  moreover have "pull_loop rt target (at_stream ?p i r1 d1 (Some (offset q))) []
      = pull_loop rt target (at_stream ?p i r1 d1 None) []"
  proof (cases "cs = []")
    case True
    with less.prems(2) have "r1 = r'" by (auto elim: records_noneE)
    then show ?thesis by (subst (1 2) pull_loop_unfold) (simp add: step_eof [OF assms(7)])
  qed (rule pull_beyond [OF less.prems(2,6)])
  ultimately have pull: "pull_rows rt target (http_state ?p (Some (encode_resume q)))
      = pull_loop rt target (at_stream ?p i r1 d1 None) []" by simp
  show ?case
  proof (cases "length (concat cs) < target")
    case True
    define q' where "q' = (at_source ?p (Suc i) d' (stream_pos r') None)\<lparr>done_flag := True\<rparr>"
    have ending: "pull_rows rt target (http_state ?p (Some (encode_resume q))) = Some (Inr (concat cs), q')"
      unfolding pull q'_def by (rule pull_last [OF less.prems(2) assms(7) _ True]) (simp add: assms(4))
    have "drains http_pull (rt, target, ?p, Some (encode_resume q')) [] None"
      by (rule http_done [OF assms(3)]) (simp add: q'_def assms(4))
    then show ?thesis
    proof (cases "concat cs = []")
      case True
      with http_end ending have "drains http_pull (rt, target, ?p, Some (encode_resume q)) [] None" by metis
      with True show ?thesis by fastforce
    next
      case False
      from http_batch [OF ending False \<open>drains http_pull _ [] None\<close>] show ?thesis by fastforce
    qed
  next
    case False
    with assms(2) have "length ([] :: mrt_row list) < target"
      "target \<le> length ([] :: mrt_row list) + length (concat cs)" by simp_all
    from pull_fills [OF less.prems(2) this] obtain now later r2 d2 where
      split: "cs = now @ later" "concat now \<noteq> []" "records_read (rt_kit rt) r1 d1 now r2 d2"
        "records_read (rt_kit rt) r2 d2 later r' d'"
        "pull_loop rt target (at_stream ?p i r1 d1 None) [] = Some (Inr ([] @ concat now), at_stream ?p i r2 d2 None)"
      by blast
    let ?q = "at_stream ?p i r2 d2 None"
    note behind = records_append [OF less.prems(1) split(3)]
    have c2: "counted (length (stream_bytes r0)) r2" using records_counted [OF behind c0 assms(6)] ..
    have "skipped @ now \<noteq> []" using split(2) by auto
    from records_positive [OF assms(1) behind c0 assms(6) this] have "0 < stream_pos r2"
      by (simp add: open_stream_start [OF assms(5)])
    moreover have "length later < length cs" using split(1,2) by auto
    ultimately obtain bs where bs: "drains http_pull (rt, target, ?p, Some (encode_resume ?q)) bs None"
      "concat bs = concat later"
      using less.hyps [OF _ behind split(4), of ?q] next_beyond [OF assms(1) c2 assms(6)] by auto
    have "pull_rows rt target (http_state ?p (Some (encode_resume q))) = Some (Inr (concat now), ?q)"
      using pull split(5) by simp
    from http_batch [OF this split(2) bs(1)] bs(2) split(1) show ?thesis by (metis concat.simps(2) concat_append)
  qed
qed

subsection \<open>An archive that breaks off\<close>

text \<open>
  A gzip archive of which the decoder delivers the bytes \<open>bs\<close> and then reports damage: \<open>cut_stream bs n\<close>
  is what is left of it at offset \<open>n\<close>.
\<close>

definition damage :: io_error where
  "damage = IoErr (OtherKind ''InvalidInput'') ''corrupt deflate stream''"

definition cut_rt :: "u8 list \<Rightarrow> (unit, unit, unit) rt" where
  "cut_rt bs = toy_rt\<lparr>rt_world := sample_world\<lparr>gz_decoder := \<lambda>_. cursor bs @ [Fail damage]\<rparr>\<rparr>"

definition cut_stream :: "u8 list \<Rightarrow> u64 \<Rightarrow> stream" where
  "cut_stream bs n = \<lparr>inner = DecoderReader (cursor bs @ [Fail damage]), count = n\<rparr>"

lemma cut_rt_simps [simp]: "rt_kit (cut_rt bs) = toy_kit"
  by (simp add: cut_rt_def)

lemma cut_open:
  "open_stream (rt_world (cut_rt bs)) (BytesSource gzip_magic) = Inr (cut_stream bs 0)"
  by (simp add: cut_rt_def open_stream_def cursor_def decompress_reader_def fill_buf_def buf_new_def
      starts_with_def gzip_magic_def counting_new_def cut_stream_def buf_capacity_def)

lemma cut_next:
  "next_record toy_kit stream_read (cut_stream (b # bs) n)
    = (map_sum id Some (toy_parse_byte b), cut_stream bs (n + 1))"
  "next_record toy_kit stream_read (cut_stream [] n)
    = (Inl (IoError damage), \<lparr>inner = DecoderReader [], count = n\<rparr>)"
  by (simp_all add: next_record_def toy_kit_def toy_parse_def cut_stream_def counting_read_def cursor_def
      toy_parse_byte_def toy_torn_def)

subsection \<open>Reading the toy sources\<close>

lemma toy_records:
  "good_bytes bs \<Longrightarrow> records_read toy_kit (toy_stream (bs @ rest) n) toy_decoder (map (\<lambda>b. [toy_row b]) bs)
     (toy_stream rest (n + of_nat (length bs))) toy_decoder"
proof (induction bs arbitrary: n)
  case Nil
  then show ?case by (simp add: read_none)
next
  case (Cons b bs)
  then have "next_record toy_kit stream_read (toy_stream (b # bs @ rest) n)
      = (Inr (Some (toy_record b)), toy_stream (bs @ rest) (n + 1))" "good_bytes bs"
    by (simp_all add: good_bytes_def toy_next toy_parse_good)
  with Cons.IH [of "n + 1"] read_one [OF this(1), of toy_decoder] show ?case
    by (simp add: add.assoc)
qed

subsection \<open>Properties\<close>

text \<open>
  C15: a torn source makes a resumed scan lose exactly the start of the next one: when the error row of a
  torn source fills a batch, the in-process drain goes on with all rows of the next source, while the
  resumed scan delivers the same batch and then, without an error, only the records of the next
  source that end behind the offset at which the torn one broke off.
\<close>

theorem torn_source_resume_loses:
  assumes "parser_progress (rt_kit rt)" and "target = Suc (length (concat cs))"
    and "open_stream (rt_world rt) s1 = Inr r1" and "records_read (rt_kit rt) r1 (decoder_new (rt_kit rt)) cs ra da"
    and "next_record (rt_kit rt) stream_read ra = (Inl err, rb)" and "\<not> is_recoverable err" and "0 < stream_pos rb"
    and "open_stream (rt_world rt) s2 = Inr r2" and "length (stream_bytes r2) < 2 ^ 64"
    and "records_read (rt_kit rt) r2 (decoder_new (rt_kit rt)) lost rm dm" and "stream_pos rm \<le> stream_pos rb"
    and "records_read (rt_kit rt) rm dm kept rc dc" and "beyond (rt_kit rt) rm (stream_pos rb)"
    and "next_record (rt_kit rt) stream_read rc = (Inr None, rd)"
  shows "(\<exists>bs. drains mrt_pull (rt, target, producer_new (rt_kit rt) sch k False [s1, s2]) bs None
      \<and> concat bs = concat cs @ [error_row (err_text rt (label s1) err)] @ concat lost @ concat kept)
    \<and> (\<exists>bs. drains http_pull (rt, target, producer_new (rt_kit rt) sch k False [s1, s2], None) bs None
      \<and> concat bs = concat cs @ [error_row (err_text rt (label s1) err)] @ concat kept)"
proof
  let ?err = "error_row (err_text rt (label s1) err)" and ?p = "producer_new (rt_kit rt) sch k False [s1, s2]"
  have pos: "0 < target" using assms(2) by simp
  have "source_run rt False (label s1) r1 (decoder_new (rt_kit rt)) None (cs @ [[?err]]) None"
    using records_run [OF assms(4) run_torn [OF assms(5) _ assms(6), of False "label s1" da None]] by (simp add: past_def)
  moreover have "source_run rt False (label s2) r2 (decoder_new (rt_kit rt)) None ((lost @ kept) @ []) None"
    by (rule records_run [OF records_append [OF assms(10,12)] run_eof [OF assms(14)]])
  ultimately have "scan_run rt False [s1, s2] None ((cs @ [[?err]]) @ ((lost @ kept) @ []) @ []) None"
    by (intro scan_next [OF assms(3)] scan_next [OF assms(8)] scan_nil)
  from drain_new [OF assms(1) pos this, of "rt_kit rt" sch k]
  show "\<exists>bs. drains mrt_pull (rt, target, ?p) bs None \<and> concat bs = concat cs @ [?err] @ concat lost @ concat kept"
    by auto
  define q where "q = at_source ?p (Suc 0) da (stream_pos rb) None"
  have "pull_loop rt target (at_stream ?p 0 ra da None) (concat cs) = Some (Inr (concat cs @ [?err]), q)"
    using assms(2) step_torn [OF assms(5) _ assms(6), of ?p 0 da None]
    by (subst pull_loop_unfold) (simp add: past_def q_def)
  then have "pull_loop rt target (at_source ?p 0 (decoder_new (rt_kit rt)) 0 None) [] = Some (Inr (concat cs @ [?err]), q)"
    using assms(2,3) by (simp add: pull_open pull_records [OF assms(4)])
  then have first: "pull_rows rt target (http_state ?p None) = Some (Inr (concat cs @ [?err]), q)"
    using producer_new_at [of "rt_kit rt" sch k False "[s1, s2]"] by (simp add: http_state_def pull_rows_def)
  obtain bs where "drains http_pull (rt, target, ?p, Some (encode_resume q)) bs None" "concat bs = concat kept"
    using http_tail [OF assms(1) pos, of "[s1, s2]" 1 r2 rc rd lost rm dm kept dc q sch k False]
      assms(7-14) by (auto simp: q_def)
  with http_batch [OF first _ this(1)]
  show "\<exists>bs. drains http_pull (rt, target, ?p, None) bs None \<and> concat bs = concat cs @ [?err] @ concat kept"
    by fastforce
qed

theorem torn_source_resume_loses_witness:
  "(\<exists>bs. drains mrt_pull (toy_rt, 3, toy_producer [BytesSource [1, 2, 0xFF], BytesSource [3, 4, 5, 6]]) bs None
      \<and> concat bs = [toy_row 1, toy_row 2, error_row ''<blob>: torn'', toy_row 3, toy_row 4, toy_row 5, toy_row 6])
   \<and> (\<exists>bs. drains http_pull (toy_rt, 3, toy_producer [BytesSource [1, 2, 0xFF], BytesSource [3, 4, 5, 6]], None) bs None
      \<and> concat bs = [toy_row 1, toy_row 2, error_row ''<blob>: torn'', toy_row 6])"
proof -
  have good: "good_bytes [1, 2]" "good_bytes [3, 4, 5]" "good_bytes [6]" by (simp_all add: good_bytes_def)
  have opened: "open_stream (rt_world toy_rt) (BytesSource [1, 2, 0xFF]) = Inr (toy_stream [1, 2, 0xFF] 0)"
    "open_stream (rt_world toy_rt) (BytesSource [3, 4, 5, 6]) = Inr (toy_stream [3, 4, 5, 6] 0)"
    using toy_open [of "[1, 2, 0xFF]"] toy_open [of "[3, 4, 5, 6]"] by (simp_all add: good_bytes_def)
  have torn: "next_record (rt_kit toy_rt) stream_read (toy_stream [0xFF] 2) = (Inl toy_torn, toy_stream [] 3)"
    by (simp add: toy_next toy_parse_byte_def)
  have eof: "next_record (rt_kit toy_rt) stream_read (toy_stream [] 4) = (Inr None, toy_stream [] 4)"
    by (simp add: toy_next)
  have "beyond (rt_kit toy_rt) (toy_stream [6] 3) (stream_pos (toy_stream [] 3))"
    by (simp add: beyond_def toy_next)
  from torn_source_resume_loses [OF _ _ opened(1) _ torn _ _ opened(2) _ _ _ _ this eof, where target = 3
      and sch = rib_schema and k = Rib and cs = "[[toy_row 1], [toy_row 2]]" and da = toy_decoder and dm = toy_decoder
      and lost = "[[toy_row 3], [toy_row 4], [toy_row 5]]" and kept = "[[toy_row 6]]" and dc = toy_decoder]
    toy_records [OF good(1), of "[0xFF]" 0] toy_records [OF good(2), of "[6]" 0] toy_records [OF good(3), of "[]" 3]
  show ?thesis by (simp add: toy_progress toy_producer_def toy_err_text) (simp add: toy_torn_def)
qed

text \<open>
  C16: a damaged archive passes for a complete one over a resumed scan: when reading fails right behind
  the record whose rows fill the first batch, without consuming a byte, the in-process drain delivers
  the error row behind the rows, while the resumed scan ends without it and without an error: the
  offset of the failure is not past the checkpoint, so its row counts as delivered.
\<close>

theorem damaged_archive_resume_silent:
  assumes "parser_progress (rt_kit rt)"
    and "open_stream (rt_world rt) s = Inr r0" and "length (stream_bytes r0) < 2 ^ 64"
    and "records_read (rt_kit rt) r0 (decoder_new (rt_kit rt)) cs ra da" and "length (concat cs) < target"
    and "next_record (rt_kit rt) stream_read ra = (Inr (Some rec), rb)" and "record_rows (rt_kit rt) da rec = (rows, db)"
    and "target \<le> length (concat cs) + length rows"
    and "next_record (rt_kit rt) stream_read rb = (Inl err, rc)" and "\<not> is_recoverable err"
    and "stream_pos rc = stream_pos rb"
  shows "(\<exists>bs. drains mrt_pull (rt, target, producer_new (rt_kit rt) sch k False [s]) bs None
      \<and> concat bs = concat cs @ rows @ [error_row (err_text rt (label s) err)])
    \<and> drains http_pull (rt, target, producer_new (rt_kit rt) sch k False [s], None) [concat cs @ rows] None"
proof
  let ?err = "error_row (err_text rt (label s) err)" and ?p = "producer_new (rt_kit rt) sch k False [s]"
  have pos: "0 < target" using assms(5) by simp
  note c0 = open_stream_counted [OF assms(2)]
  have upto: "records_read (rt_kit rt) r0 (decoder_new (rt_kit rt)) (cs @ [rows]) rb db"
    using records_append [OF assms(4) read_one [OF assms(6) read_none, of da]] assms(7) by simp
  have "source_run rt False (label s) r0 (decoder_new (rt_kit rt)) None ((cs @ [rows]) @ [[?err]]) None"
    using records_run [OF upto run_torn [OF assms(9) _ assms(10), of False "label s" db None]] by (simp add: past_def)
  then have "scan_run rt False [s] None (((cs @ [rows]) @ [[?err]]) @ []) None"
    by (intro scan_next [OF assms(2)] scan_nil)
  from drain_new [OF assms(1) pos this, of "rt_kit rt" sch k]
  show "\<exists>bs. drains mrt_pull (rt, target, ?p) bs None \<and> concat bs = concat cs @ rows @ [?err]" by auto
  define q where "q = at_stream ?p 0 rb db None"
  have "pull_loop rt target (at_stream ?p 0 ra da None) (concat cs) = Some (Inr (concat cs @ rows), q)"
    using assms(7,8) by (subst pull_loop_unfold) (simp add: step_record [OF assms(6)] past_def q_def)
  then have "pull_loop rt target (at_source ?p 0 (decoder_new (rt_kit rt)) 0 None) [] = Some (Inr (concat cs @ rows), q)"
    using assms(2,5) by (simp add: pull_open pull_records [OF assms(4)])
  then have first: "pull_rows rt target (http_state ?p None) = Some (Inr (concat cs @ rows), q)"
    using producer_new_at [of "rt_kit rt" sch k False "[s]"] by (simp add: http_state_def pull_rows_def)
  have "0 < stream_pos rb"
    using records_positive [OF assms(1) upto c0 assms(3)] open_stream_start [OF assms(2)] by simp
  then have "pull_rows rt target (http_state ?p (Some (encode_resume q)))
      = pull_loop rt target (at_stream ?p 0 rb db (Some (stream_pos rb))) []"
    using resume_at [of "[s]" q "rt_kit rt" sch k False] assms(2) pull_skips [OF upto c0 assms(3) order_refl]
    by (simp add: pull_rows_def pull_open q_def)
  also have "\<dots> = Some (Inr [], (at_source ?p (Suc 0) db (stream_pos rb) None)\<lparr>done_flag := True\<rparr>)"
    using step_torn [OF assms(9) _ assms(10), of ?p 0 db "Some (stream_pos rb)"] assms(11) pos
    by (subst pull_loop_unfold) (simp add: past_def pull_done)
  finally have "drains http_pull (rt, target, ?p, Some (encode_resume q)) [] None" by (rule http_end)
  moreover have "concat cs @ rows \<noteq> []" using assms(5,8) by auto
  ultimately show "drains http_pull (rt, target, ?p, None) [concat cs @ rows] None"
    by (intro http_batch [OF first])
qed

theorem damaged_archive_resume_silent_witness:
  "(\<exists>bs. drains mrt_pull (cut_rt [1, 2], 2, toy_producer [BytesSource gzip_magic]) bs None
      \<and> concat bs = [toy_row 1, toy_row 2, error_row ''<blob>: io''])
   \<and> drains http_pull (cut_rt [1, 2], 2, toy_producer [BytesSource gzip_magic], None) [[toy_row 1, toy_row 2]] None"
proof -
  have nexts: "next_record toy_kit stream_read (cut_stream [1, 2] 0) = (Inr (Some (toy_record 1)), cut_stream [2] 1)"
    "next_record (rt_kit (cut_rt [1, 2])) stream_read (cut_stream [2] 1) = (Inr (Some (toy_record 2)), cut_stream [] 2)"
    "next_record (rt_kit (cut_rt [1, 2])) stream_read (cut_stream [] 2) = (Inl (IoError damage), \<lparr>inner = DecoderReader [], count = 2\<rparr>)"
    by (simp_all add: cut_next toy_parse_good)
  have "length (stream_bytes (cut_stream [1, 2] 0)) < 2 ^ 64"
    by (simp add: cut_stream_def counted_bytes_def cursor_def)
  note silent = damaged_archive_resume_silent [OF _ cut_open this _ _ nexts(2) _ _ nexts(3), where target = 2
      and sch = rib_schema and k = Rib]
  show ?thesis
    using silent [of "[[toy_row 1]]" toy_decoder "[toy_row 2]" toy_decoder] read_one [OF nexts(1) read_none, of toy_decoder]
    by (simp add: toy_progress toy_producer_def err_text_def) (simp add: cut_stream_def toy_kit_def)
qed

text \<open>
  C17: a corrupt record makes a resumed scan run forever: when a source of a lenient scan holds records,
  then a corrupt record the decoder could skip, then records whose rows fill a batch, the in-process
  drain ends, while the scan resumed before every batch never does: each response is another batch,
  because re-reading the corrupt record drops the fast-forward target and the records behind it count
  as new.
\<close>

theorem corrupt_record_resume_livelock:
  fixes rt :: "('s, 'x, 'e) rt" and s :: "'s byte_source"
  assumes "parser_progress (rt_kit rt)" and "0 < target" and "length (s # ss) < 2 ^ 64"
    and "open_stream (rt_world rt) s = Inr r0" and "length (stream_bytes r0) < 2 ^ 64"
    and "records_read (rt_kit rt) r0 (decoder_new (rt_kit rt)) cs ra da"
    and "next_record (rt_kit rt) stream_read ra = (Inl err, rb)" and "is_recoverable err"
    and "records_read (rt_kit rt) rb da rest rc dc" and "target \<le> length (concat rest)"
  shows "(\<exists>bs e. drains mrt_pull (rt, target, producer_new (rt_kit rt) sch k False (s # ss)) bs e)
    \<and> (\<nexists>bs e. drains http_pull (rt, target, producer_new (rt_kit rt) sch k False (s # ss), None) bs e)"
proof
  obtain cs' e where "scan_run rt False (s # ss) None cs' e" using scan_run_total [OF assms(1)] by blast
  from drain_new [OF assms(1,2) this, of "rt_kit rt" sch k]
  show "\<exists>bs e. drains mrt_pull (rt, target, producer_new (rt_kit rt) sch k False (s # ss)) bs e" by blast
  let ?first = "producer_new (rt_kit rt) sch k False (s # ss)"
  define I where "I = (\<lambda>sp. \<exists>q. idx q = 0 \<and> stuck_at (rt_kit rt) r0 cs ra da rb (offset q)
    \<and> fst (snd sp) = target \<and> fst sp = rt \<and> fst (snd (snd sp)) = ?first
    \<and> (snd (snd (snd sp)) = None \<and> offset q = 0 \<or> snd (snd (snd sp)) = Some (encode_resume (q :: ('s, 'e) producer))))"
  have "\<exists>now y. http_pull x = Some (Inr now, y) \<and> now \<noteq> [] \<and> I y" if "I x" for x
  proof -
    obtain rt' target' first' token where x: "x = (rt', target', first', token)" by (cases x)
    from that obtain q where q: "idx q = 0" "stuck_at (rt_kit rt) r0 cs ra da rb (offset q)"
      "x = (rt, target, ?first, token)" "token = None \<and> offset q = 0 \<or> token = Some (encode_resume (q :: ('s, 'e) producer))"
      by (auto simp: I_def x)
    have state: "http_state ?first token
        = at_source ?first 0 (decoder_new (rt_kit rt)) 0 (if 0 < offset q then Some (offset q) else None)"
      using q(4)
    proof
      assume "token = None \<and> offset q = 0"
      then show ?thesis using producer_new_at [of "rt_kit rt" sch k False "s # ss"] by (simp add: http_state_def)
    next
      assume "token = Some (encode_resume q)"
      with resume_at [OF assms(3), of q "rt_kit rt" sch k False] q(1) show ?thesis by simp
    qed
    have at: "\<not> strict ?first" "0 < length (sources ?first)" "open_stream (rt_world rt) (sources ?first ! 0) = Inr r0"
      using assms(4) by simp_all
    from pull_stuck [OF assms(1) at assms(5-9,2,10) q(2)] obtain now r' d' where
      "pull_loop rt target (at_source ?first 0 (decoder_new (rt_kit rt)) 0
         (if 0 < offset q then Some (offset q) else None)) [] = Some (Inr now, at_stream ?first 0 r' d' None)"
      "now \<noteq> []" "stuck_at (rt_kit rt) r0 cs ra da rb (stream_pos r')" by blast
    then have "http_pull x = Some (Inr now, (rt, target, ?first, Some (encode_resume (at_stream ?first 0 r' d' None))))"
      "I (rt, target, ?first, Some (encode_resume (at_stream ?first 0 r' d' None)))"
      using q(3) state by (auto simp: http_pull_def pull_rows_def I_def intro!: exI [of _ "at_stream ?first 0 r' d' None"])
    with \<open>now \<noteq> []\<close> show ?thesis by blast
  qed
  note never = never_drains [where I = I and pull = http_pull, OF this]
  have "stuck_at (rt_kit rt) r0 cs ra da rb 0"
    unfolding stuck_at_def using assms(6) read_none open_stream_start [OF assms(4)] by fastforce
  then have "I (rt, target, ?first, None)" by (auto simp: I_def intro!: exI [of _ ?first] simp: producer_new_def)
  with never show "\<nexists>bs e. drains http_pull (rt, target, ?first, None) bs e" by blast
qed

theorem corrupt_record_resume_livelock_witness:
  "\<nexists>bs e. drains http_pull (toy_rt, 2, toy_producer [BytesSource [1, 0xFE, 2, 3]], None) bs e"
proof -
  have good: "good_bytes [1]" "good_bytes [2, 3]" by (simp_all add: good_bytes_def)
  have opened: "open_stream (rt_world toy_rt) (BytesSource [1, 0xFE, 2, 3]) = Inr (toy_stream [1, 0xFE, 2, 3] 0)"
    using toy_open [of "[1, 0xFE, 2, 3]"] good by simp
  have "next_record (rt_kit toy_rt) stream_read (toy_stream [0xFE, 2, 3] 1) = (Inl (OtherError ''corrupt''), toy_stream [2, 3] 2)"
    by (simp add: toy_next toy_parse_byte_def)
  from corrupt_record_resume_livelock [OF _ _ _ opened _ _ this, where target = 2 and ss = "[]" and sch = rib_schema and k = Rib]
    toy_records [OF good(1), of "[0xFE, 2, 3]" 0] toy_records [OF good(2), of "[]" 2]
  show ?thesis by (simp add: toy_progress toy_producer_def)
qed

end
