(* ===== verification/Spec2Isabelle.thy ===== *)
theory Spec2Isabelle
  imports Entry Fixtures Http_Calls Compressed_Scans Scan_Errors Block_On Fixture_Generator Resume_Losses
begin

text \<open>
  A model of \<open>vgi-bgp\<close>, a worker that decodes MRT routing dumps (BGP4MP updates and TABLE_DUMP_V2
  snapshots) into SQL rows. The pure core is the crate \<open>src/crates/bgp-core\<close>; the crate
  \<open>src/crates/bgp-worker\<close> resolves sources, streams them and serves table and scalar functions over
  Arrow.

  How the parts interact. A call names its source (\<open>options.rs\<close>); \<open>reader.rs\<close> classifies each path
  with \<open>cloud.rs\<close>, expands globs and builds object stores behind the host guard. A table function of
  \<open>table/\<close> binds (schema and path check) and makes a producer, which opens one source after the
  other, decompresses it and feeds the records it parses to the decoder of \<open>decode.rs\<close>; the rows
  become Arrow columns in \<open>arrow_io.rs\<close>, with addresses encoded by \<open>inet.rs\<close>. Over HTTP the producer
  is rebuilt for every batch from a 16-byte position. The scalar functions of \<open>scalar/\<close> lift
  \<open>aspath.rs\<close> and \<open>community.rs\<close> to columns.

  The theories, in the order of the code.

  \<^item> \<open>Prelude\<close> (errors, \<open>?\<close>, shared lists), \<open>Rust_Str\<close>, \<open>Rust_Num\<close>, \<open>Bytes\<close>: what the program uses of
    the language and its standard library. Strings are lists of UTF-8 bytes.
  \<^item> \<open>Inet\<close>: \<open>inet.rs\<close>. The encoding is injective and keeps the order of addresses within a family.
  \<^item> \<open>Aspath\<close>, \<open>Community\<close>: \<open>aspath.rs\<close>, \<open>community.rs\<close>.
  \<^item> \<open>Byte_Reader\<close>, \<open>Stream_Ops\<close>: \<open>Read\<close> as functions on scripts of read events, the counting
    reader, sniffing decompression and skipping of \<open>decode.rs\<close>. The locale \<open>byte_reader\<close> is the
    contract of a reader and has an interpretation for each reader of the program.
  \<^item> \<open>Float64\<close>: the binary64 operations behind \<open>ts_to_micros\<close>, and its exactness.
  \<^item> \<open>Decode\<close>: rows, decoder, error classes of \<open>decode.rs\<close>.
  \<^item> \<open>Arrow_Io\<close>, \<open>Arrow_Columns\<close>: \<open>arrow_io.rs\<close> and the schemas of \<open>table/mod.rs\<close>; columns fit
    their schema and lose nothing.
  \<^item> \<open>Net_Guard\<close>, \<open>Cloud\<close>: \<open>cloud.rs\<close>: internal addresses against the published networks, the
    address parser, classification, secrets, stores, globs.
  \<^item> \<open>Block_On\<close>: the shared runtime and \<open>block_on\<close> of \<open>cloud.rs\<close>, over tokio as a parameter: driving a
    future never panics and builds one runtime, so the calls of \<open>Cloud\<close>, in which a future is run to
    its end, are the calls of the code.
  \<^item> \<open>Options\<close>, \<open>Sources\<close>: \<open>options.rs\<close> and the resolving half of \<open>reader.rs\<close>.
  \<^item> \<open>Producer\<close>: \<open>MrtProducer\<close> of \<open>reader.rs\<close>: \<open>loop_step\<close> is one pass of the loop of
    \<open>pull_batch\<close>, \<open>pull_loop\<close> the loop, \<open>encode_resume\<close> and \<open>restore_resume\<close> the position. The width
    of \<open>usize\<close> is an argument of the two places that read a number into one (\<open>batch_rows_on\<close>,
    \<open>restore_resume_on\<close>): 64 bits in the native worker, which the other definitions use, and 32 in the
    wasm32 build, where a token restores the same state (\<open>token_roundtrip\<close>) and a batch size has to
    fit 32 bits.
  \<^item> \<open>Scan\<close>, \<open>Scan_Properties\<close>: the abstract specification of a scan, the relations \<open>source_run\<close> and
    \<open>scan_run\<close> that give the rows of a source and of all sources with no batches in sight, and the
    refinement: draining the producer delivers those rows whatever the batch size. The locale
    \<open>row_supply\<close> is the contract between a scan and whoever drains it; it is interpreted for the
    producer kept in memory and for the one rebuilt from its position before each batch.
  \<^item> \<open>Resume\<close>, \<open>Resume_Properties\<close>: resumed scans. They are exact in strict mode, and in lenient mode on
    sources without decode errors but for a torn tail of the last one (\<open>resume_safe\<close>).
    \<open>Record_Loops\<close>, \<open>Resume_Losses\<close>: the loop over runs of records, and the three situations outside
    \<open>resume_safe\<close>, for any parser and sources: data that is lost, a failure that goes unreported, a scan
    that never ends. \<open>reached\<close> is the states of one scan, resumed or not, and in all of them the
    checkpoint lies on a record boundary. \<open>Toy_Source\<close>: the small parser of the witnesses.
  \<^item> \<open>Scan_Errors\<close>: \<open>strict\<close> on damaged sources, as the consumer of complete drains sees it: without it
    the damage is one error row in its place and the scan goes on; with it the scan ends there.
  \<^item> \<open>Chunking\<close>: what a source delivers depends on its bytes alone. The locale \<open>steady_reader\<close> extends
    \<open>byte_reader\<close> by the contract that no read fails and only the end is empty; over such readers the
    next record is a function of the bytes. \<open>Compressed_Scans\<close>: producers over the same bytes are in
    lockstep, so compressed sources give the batches of what they expand to. The price of sniffing is
    shown too: the timestamps that look like a compressed file.
  \<^item> \<open>Table_Functions\<close>: the three table functions and the whole of the peer enumeration.
    \<open>Table_Scans\<close>: a whole call of a reader, from its arguments to its record batches. \<open>Http_Calls\<close>: the
    same over HTTP, where every batch comes from a producer built anew.
  \<^item> \<open>Scalar\<close>, \<open>Path_Scalars\<close>, \<open>Community_Scalars\<close>, \<open>Scalars\<close>: \<open>scalar/\<close>. The locale \<open>vector_function\<close> is
    the contract of a scalar function and is interpreted for each of the six; the results have the
    declared type, a batch without the columns of the arguments is a panic (\<open>column\<close>; an \<open>outcome\<close> is
    a panic or a value), and over columns of paths they are the pure functions.
  \<^item> \<open>Json\<close>: a reader of JSON texts, the specification of the builders of \<open>meta.rs\<close>; \<open>Meta\<close>: those
    builders; \<open>Fixtures\<close>: the embedded MRT streams, read by the framing of RFC 6396.
    \<open>Fixture_Generator\<close>: \<open>data/generate_fixtures.rs\<close>, whose elements decode to the rows the tests expect.
  \<^item> \<open>Table_Metadata\<close>, \<open>Catalog\<close>: the metadata of the table functions, and \<open>lib.rs\<close>: catalog, sample
    view, registration. The texts are kept as the code has them; what is proved is agreement between
    parts that only convention ties together (columns, categories, names).
  \<^item> \<open>Entry\<close>: \<open>main.rs\<close> and the browser build, which serve the same worker.

  Loops that depend on input are \<open>partial_function (option)\<close>: \<open>None\<close> is never returning, and returning
  is a theorem (under \<open>parser_progress\<close>, that a parser which yields a record or a recoverable error
  has consumed input). Fuel occurs in two specifications only, never in a model of code: the reader of
  \<open>Json\<close> gets more than the length of the text (\<open>fuel_le_length\<close>), the framing of \<open>Fixtures\<close> eight
  records.

  Parameters. Third-party code is an argument: \<open>bgpkit\<close> (record parser and element flattening),
  \<open>world\<close> (URL parsing, percent coding, glob matching, object stores, name resolution, files,
  environment, the two decompressors), \<open>try_new\<close> (Arrow's batch constructor, with the documented
  contract \<open>try_new_accepts\<close>), \<open>secrets\<close> and \<open>arguments\<close> of the SDK.

  Also parameters: \<open>tokio\<close> (runtimes, with \<open>tokio_documented\<close>), \<open>elem_kit\<close> and the encoders of the fixture
  generator (with \<open>values_documented\<close>).

  Not modelled: what the SDK generates around the worker (transports, dispatch), capacity hints of
  buffers, the derived traits and accessors nothing here calls, and the tests.
\<close>

end
